theory Spec2Isabelle
  imports Main
begin

section \<open>Strings of the worker\<close>

text \<open>
  The worker (\<^verbatim>\<open>src/worker.js\<close>) is a JavaScript program; a JavaScript string is a sequence
  of 16-bit code units. Two types model it. A playlist, which is whatever text the upstream
  sends, is a \<open>ustring\<close>: the list of its code units, numbers from 0 to 65535 that the
  worker only compares and never calculates with. The strings that can only hold code units
  below 256 (the parts of a parsed URL, what \<^verbatim>\<open>btoa\<close> and \<^verbatim>\<open>atob\<close> return, the literals of
  the source) are of type \<^typ>\<open>string\<close>, lists of 8-bit characters, and \<open>units\<close> reads such
  a string as a \<open>ustring\<close>. The string methods the worker calls are written out below with
  the behaviour ECMAScript gives them.
\<close>

type_synonym ustring = "int list"

definition units :: "string \<Rightarrow> ustring" where
  "units s = map of_char s"

definition startsWith :: "'a list \<Rightarrow> 'a list \<Rightarrow> bool" where
  "startsWith s p = (take (length p) s = p)"

definition endsWith :: "'a list \<Rightarrow> 'a list \<Rightarrow> bool" where
  "endsWith s p = (length p \<le> length s \<and> drop (length s - length p) s = p)"

text \<open>\<^verbatim>\<open>s.includes(p)\<close>: does \<open>p\<close> occur in \<open>s\<close> as a contiguous run.\<close>

fun includes_str :: "'a list \<Rightarrow> 'a list \<Rightarrow> bool" where
  "includes_str [] p = (p = [])"
| "includes_str (c # cs) p = (startsWith (c # cs) p \<or> includes_str cs p)"

text \<open>\<^verbatim>\<open>s.split(sep)\<close> for a one-character separator; the result is never empty.\<close>

fun split :: "'a \<Rightarrow> 'a list \<Rightarrow> 'a list list" where
  "split sep [] = [[]]"
| "split sep (c # cs) =
     (if c = sep then [] # split sep cs
      else (case split sep cs of
              [] \<Rightarrow> [[c]]
            | p # ps \<Rightarrow> (c # p) # ps))"

text \<open>\<^verbatim>\<open>s.lastIndexOf(c)\<close> for a one-character needle: an index, or \<open>-1\<close>.\<close>

fun lastIndexFrom :: "char \<Rightarrow> int \<Rightarrow> int \<Rightarrow> string \<Rightarrow> int" where
  "lastIndexFrom c i found [] = found"
| "lastIndexFrom c i found (x # xs) =
     lastIndexFrom c (i + 1) (if x = c then i else found) xs"

definition lastIndexOf :: "string \<Rightarrow> char \<Rightarrow> int" where
  "lastIndexOf s c = lastIndexFrom c 0 (- 1) s"

text \<open>\<^verbatim>\<open>s.substring(0, e)\<close>: a negative end counts as \<open>0\<close>, one past the end as the length.\<close>

definition substring0 :: "string \<Rightarrow> int \<Rightarrow> string" where
  "substring0 s e = take (nat e) s"

text \<open>\<^verbatim>\<open>s.replace(p, r)\<close> with a string pattern: only the first occurrence is replaced.\<close>

fun replaceFirst :: "string \<Rightarrow> string \<Rightarrow> string \<Rightarrow> string" where
  "replaceFirst p r [] = (if p = [] then r else [])"
| "replaceFirst p r (c # cs) =
     (if startsWith (c # cs) p then r @ drop (length p) (c # cs)
      else c # replaceFirst p r cs)"

text \<open>Decimal rendering of a number inside a template string.\<close>

definition digit_char :: "nat \<Rightarrow> char" where
  "digit_char d = char_of (48 + d)"

function show_nat :: "nat \<Rightarrow> string" where
  "show_nat n = (if n < 10 then [digit_char n] else show_nat (n div 10) @ [digit_char (n mod 10)])"
  by pat_completeness auto
termination
  by (relation "measure id") auto

declare show_nat.simps [simp del]

section \<open>Addressing codec: \<^verbatim>\<open>btoa\<close>, \<^verbatim>\<open>atob\<close> and the padding convention\<close>

definition b64_alphabet :: string where
  "b64_alphabet = ''ABCDEFGHIJKLMNOPQRSTUVWXYZabcdefghijklmnopqrstuvwxyz0123456789+/''"

definition b64chr :: "nat \<Rightarrow> char" where
  "b64chr n = b64_alphabet ! n"

text \<open>
  \<^verbatim>\<open>btoa\<close>: three bytes become four characters of the alphabet; a last group of one or two
  bytes is padded with \<^verbatim>\<open>=\<close>. Every argument of \<open>b64chr\<close> below is less than 64.
\<close>

fun b64_groups :: "nat list \<Rightarrow> string" where
  "b64_groups [] = []"
| "b64_groups [a] = [b64chr (a div 4), b64chr ((a mod 4) * 16), CHR ''='', CHR ''='']"
| "b64_groups [a, b] =
     [b64chr (a div 4), b64chr ((a mod 4) * 16 + b div 16), b64chr ((b mod 16) * 4), CHR ''='']"
| "b64_groups (a # b # c # r) =
     [b64chr (a div 4), b64chr ((a mod 4) * 16 + b div 16),
      b64chr ((b mod 16) * 4 + c div 64), b64chr (c mod 64)] @ b64_groups r"

definition btoa :: "string \<Rightarrow> string" where
  "btoa s = b64_groups (map of_char s)"

text \<open>
  \<^verbatim>\<open>atob\<close> is the forgiving-base64 decode of the WHATWG Infra Standard, which the Workers
  runtime, browsers and Node implement: ASCII whitespace is dropped; when the length is then
  a multiple of four, one or two trailing \<^verbatim>\<open>=\<close> are removed; a length of one modulo four
  fails; any remaining character outside the alphabet (a \<^verbatim>\<open>=\<close> included) fails; the
  characters are then read six bits at a time, and the 4 or 2 spare bits of a last partial
  group are discarded.
\<close>

datatype js_error =
    InvalidCharacterError
  | TypeError
  | NetworkError
  | Error string

definition isAsciiWhitespace :: "char \<Rightarrow> bool" where
  "isAsciiWhitespace c = (c \<in> set [CHR 0x09, CHR 0x0A, CHR 0x0C, CHR 0x0D, CHR 0x20])"

definition b64val :: "char \<Rightarrow> nat option" where
  "b64val c =
     (let n = (of_char c :: nat)
      in if 65 \<le> n \<and> n \<le> 90 then Some (n - 65)
         else if 97 \<le> n \<and> n \<le> 122 then Some (n - 71)
         else if 48 \<le> n \<and> n \<le> 57 then Some (n + 4)
         else if c = CHR ''+'' then Some 62
         else if c = CHR ''/'' then Some 63
         else None)"

definition strip_pad :: "string \<Rightarrow> string" where
  "strip_pad d = (if d \<noteq> [] \<and> last d = CHR ''='' then butlast d else d)"

fun sextets_bytes :: "nat list \<Rightarrow> string" where
  "sextets_bytes (a # b # c # d # r) =
     [char_of (a * 4 + b div 16), char_of ((b mod 16) * 16 + c div 4),
      char_of ((c mod 4) * 64 + d)] @ sextets_bytes r"
| "sextets_bytes [a, b, c] = [char_of (a * 4 + b div 16), char_of ((b mod 16) * 16 + c div 4)]"
| "sextets_bytes [a, b] = [char_of (a * 4 + b div 16)]"
| "sextets_bytes _ = []"

definition atob :: "string \<Rightarrow> js_error + string" where
  "atob input =
     (let d = filter (\<lambda>c. \<not> isAsciiWhitespace c) input;
          d' = (if length d mod 4 = 0 then strip_pad (strip_pad d) else d)
      in if length d' mod 4 = 1 then Inl InvalidCharacterError
         else (case those (map b64val d') of
                 None \<Rightarrow> Inl InvalidCharacterError
               | Some vs \<Rightarrow> Inr (sextets_bytes vs)))"

text \<open>
  The worker writes a token as \<^verbatim>\<open>btoa(s).replace(/=/g, '')\<close> (lines 189, 190, 199, 200) and
  reads it back as \<^verbatim>\<open>atob(`${token}==`)\<close> (lines 248, 249).
\<close>

definition encode :: "string \<Rightarrow> string" where
  "encode s = filter (\<lambda>c. c \<noteq> CHR ''='') (btoa s)"

definition decode :: "string \<Rightarrow> js_error + string" where
  "decode token = atob (token @ ''=='')"

text \<open>
  On an arbitrary JavaScript string \<^verbatim>\<open>btoa\<close> throws an \<^verbatim>\<open>InvalidCharacterError\<close> when a code
  unit is above 255; otherwise it is the function above. The name of a segment comes out of
  the upstream's playlist and passes through this check (line 199).
\<close>

definition btoa_js :: "ustring \<Rightarrow> js_error + string" where
  "btoa_js s =
     (if \<forall>c\<in>set s. 0 \<le> c \<and> c < 256 then Inr (btoa (map char_of s))
      else Inl InvalidCharacterError)"

definition encode_js :: "ustring \<Rightarrow> js_error + string" where
  "encode_js s =
     (case btoa_js s of
        Inl e \<Rightarrow> Inl e
      | Inr b \<Rightarrow> Inr (filter (\<lambda>c. c \<noteq> CHR ''='') b))"

section \<open>Manifest rewriter\<close>

text \<open>
  The rewriter is one call of \<^verbatim>\<open>String.prototype.replace\<close> with a global, multiline regular
  expression and a replacer function (lines 183 to 204). The expression has no \<^verbatim>\<open>u\<close> flag and
  works on code units. Its classes: \<^verbatim>\<open>\s\<close> is TAB, LF, VT, FF, CR, SPACE, U+00A0, U+1680,
  U+2000 to U+200A, U+2028, U+2029, U+202F, U+205F, U+3000 and U+FEFF; \<^verbatim>\<open>\d\<close> is an ASCII
  digit; in multiline mode \<^verbatim>\<open>^\<close> holds at the start of the input and after LF, CR, U+2028 or
  U+2029.
\<close>

definition isSpace :: "int \<Rightarrow> bool" where
  "isSpace c =
     (c \<in> set [0x09, 0x0A, 0x0B, 0x0C, 0x0D, 0x20, 0xA0, 0x1680, 0x2028, 0x2029, 0x202F,
                0x205F, 0x3000, 0xFEFF] \<or>
      (0x2000 \<le> c \<and> c \<le> 0x200A))"

definition isLineTerminator :: "int \<Rightarrow> bool" where
  "isLineTerminator c = (c = 0x0A \<or> c = 0x0D \<or> c = 0x2028 \<or> c = 0x2029)"

definition isDigit :: "int \<Rightarrow> bool" where
  "isDigit c = (48 \<le> c \<and> c \<le> 57)"

definition nonSpaceRun :: "ustring \<Rightarrow> ustring" where
  "nonSpaceRun s = takeWhile (\<lambda>c. \<not> isSpace c) s"

text \<open>First alternative, \<^verbatim>\<open>https?:\/\/[^\s]+\<close>: the length of the match at the head of \<open>s\<close>.\<close>

definition match_absolute :: "ustring \<Rightarrow> nat option" where
  "match_absolute s =
     (if startsWith s (units ''https://'') then
        (if nonSpaceRun (drop 8 s) = [] then None else Some (8 + length (nonSpaceRun (drop 8 s))))
      else if startsWith s (units ''http://'') then
        (if nonSpaceRun (drop 7 s) = [] then None else Some (7 + length (nonSpaceRun (drop 7 s))))
      else None)"

text \<open>
  Second alternative, \<^verbatim>\<open>[^/\s][^\s]*\.m3u8\<close> or \<^verbatim>\<open>[^/\s][^\s]*\.ts\<close>: the greedy star takes the
  whole run of non-space code units and gives them back one at a time until the suffix
  follows; \<open>backtrack suffix r k\<close> is the number of code units the star keeps, tried from
  \<open>k\<close> downwards.
\<close>

fun backtrack :: "ustring \<Rightarrow> ustring \<Rightarrow> nat \<Rightarrow> nat option" where
  "backtrack suffix r 0 = (if startsWith r suffix then Some 0 else None)"
| "backtrack suffix r (Suc k) =
     (if startsWith (drop (Suc k) r) suffix then Some (Suc k) else backtrack suffix r k)"

definition match_relative :: "ustring \<Rightarrow> ustring \<Rightarrow> nat option" where
  "match_relative suffix s =
     (case s of
        [] \<Rightarrow> None
      | c # cs \<Rightarrow>
          if c = of_char (CHR ''/'') \<or> isSpace c then None
          else (case backtrack suffix (nonSpaceRun cs) (length (nonSpaceRun cs)) of
                  None \<Rightarrow> None
                | Some k \<Rightarrow> Some (1 + k + length suffix)))"

text \<open>
  \<^verbatim>\<open>(?!#)(https?:\/\/[^\s]+|[^/\s][^\s]*\.m3u8)\<close> at the head of \<open>s\<close>; the alternatives are
  tried in order.
\<close>

definition reference_match :: "ustring \<Rightarrow> ustring \<Rightarrow> nat option" where
  "reference_match suffix s =
     (if startsWith s (units ''#'') then None
      else (case match_absolute s of
              Some n \<Rightarrow> Some n
            | None \<Rightarrow> match_relative suffix s))"

definition atLineStart :: "int option \<Rightarrow> bool" where
  "atLineStart prev = (case prev of None \<Rightarrow> True | Some p \<Rightarrow> isLineTerminator p)"

text \<open>
  \<^verbatim>\<open>text.replace(/^.../gm, replacer)\<close>: the input is scanned from the left; \<open>prev\<close> is the
  code unit before the current position. Where the expression matches \<open>n\<close> code units they
  are replaced by what the replacer returns for them and the scan goes on behind the match
  (one code unit further after an empty match); everything else is copied. A replacer that
  throws ends the call with its error: \<open>prepend\<close> puts text in front of a result that is
  there.
\<close>

fun prepend :: "ustring \<Rightarrow> js_error + ustring \<Rightarrow> js_error + ustring" where
  "prepend x (Inl e) = Inl e"
| "prepend x (Inr y) = Inr (x @ y)"

function replace_gm :: "(ustring \<Rightarrow> nat option) \<Rightarrow> (ustring \<Rightarrow> js_error + ustring) \<Rightarrow> int option \<Rightarrow> ustring \<Rightarrow> js_error + ustring" where
  "replace_gm m r prev [] =
     (if atLineStart prev \<and> m [] \<noteq> None then r [] else Inr [])"
| "replace_gm m r prev (c # cs) =
     (if atLineStart prev then
        (case m (c # cs) of
           None \<Rightarrow> prepend [c] (replace_gm m r (Some c) cs)
         | Some n \<Rightarrow>
             if n = 0 then
               (case r [] of
                  Inl e \<Rightarrow> Inl e
                | Inr x \<Rightarrow> prepend (x @ [c]) (replace_gm m r (Some c) cs))
             else
               (case r (take n (c # cs)) of
                  Inl e \<Rightarrow> Inl e
                | Inr x \<Rightarrow>
                    prepend x
                      (replace_gm m r (Some (last (take n (c # cs)))) (drop n (c # cs)))))
      else prepend [c] (replace_gm m r (Some c) cs))"
  by pat_completeness auto
termination
  by (relation "measure (\<lambda>(m, r, prev, s). length s)") auto

text \<open>
  Master playlists (line 187): \<^verbatim>\<open>match.match(/\/(\d+p?|low|med|high)\//)\<close>. \<open>quality_at\<close> is
  the expression at the head of \<open>s\<close>, \<open>detect_quality\<close> its first match from the left.
\<close>

definition quality_at :: "ustring \<Rightarrow> ustring option" where
  "quality_at s =
     (case s of
        [] \<Rightarrow> None
      | c # t \<Rightarrow>
          if c \<noteq> of_char (CHR ''/'') then None
          else if takeWhile isDigit t \<noteq> [] \<and> startsWith (dropWhile isDigit t) (units ''p/'')
            then Some (takeWhile isDigit t @ units ''p'')
          else if takeWhile isDigit t \<noteq> [] \<and> startsWith (dropWhile isDigit t) (units ''/'')
            then Some (takeWhile isDigit t)
          else if startsWith t (units ''low/'') then Some (units ''low'')
          else if startsWith t (units ''med/'') then Some (units ''med'')
          else if startsWith t (units ''high/'') then Some (units ''high'')
          else None)"

fun detect_quality :: "ustring \<Rightarrow> ustring option" where
  "detect_quality [] = None"
| "detect_quality (c # cs) =
     (case quality_at (c # cs) of
        Some q \<Rightarrow> Some q
      | None \<Rightarrow> detect_quality cs)"

text \<open>
  The two replacers. The proxy's origin and the session id are parts of the parsed request
  URL; the quality of a media request is what \<^verbatim>\<open>atob\<close> returned.
\<close>

definition master_replacer :: "string \<Rightarrow> string \<Rightarrow> ustring \<Rightarrow> js_error + ustring" where
  "master_replacer proxyOrigin sessionPath matched =
     (let detectedQuality =
            (case detect_quality matched of Some q \<Rightarrow> q | None \<Rightarrow> units ''unknown'')
      in case encode_js detectedQuality of
           Inl e \<Rightarrow> Inl e
         | Inr qualityB64 \<Rightarrow>
             (let filenameB64 = encode ''index.m3u8''
              in Inr (units (proxyOrigin @ ''/file2/'' @ sessionPath @ ''/'' @ qualityB64 @ ''/'' @
                             filenameB64 @ ''.m3u8''))))"

definition media_replacer :: "string \<Rightarrow> string \<Rightarrow> string \<Rightarrow> ustring \<Rightarrow> js_error + ustring" where
  "media_replacer proxyOrigin sessionPath quality matched =
     (let segmentName = last (split (of_char (CHR ''/'')) matched)
      in case encode_js segmentName of
           Inl e \<Rightarrow> Inl e
         | Inr segmentB64 \<Rightarrow>
             (let qualityB64 = encode quality
              in Inr (units (proxyOrigin @ ''/file2/'' @ sessionPath @ ''/'' @ qualityB64 @ ''/'' @
                             segmentB64))))"

text \<open>
  Lines 180 to 204 of \<^verbatim>\<open>proxyM3U8Playlist\<close>; \<open>proxyOrigin\<close> is
  \<^verbatim>\<open>new URL(request.url).origin\<close>. An error is what the surrounding \<^verbatim>\<open>try\<close> catches.
\<close>

definition rewritePlaylist :: "string \<Rightarrow> string \<Rightarrow> string \<Rightarrow> string \<Rightarrow> ustring \<Rightarrow> js_error + ustring" where
  "rewritePlaylist proxyOrigin sessionPath filename quality originalPlaylist =
     (if filename = ''master.m3u8''
      then replace_gm (reference_match (units ''.m3u8'')) (master_replacer proxyOrigin sessionPath)
             None originalPlaylist
      else replace_gm (reference_match (units ''.ts''))
             (media_replacer proxyOrigin sessionPath quality) None originalPlaylist)"

section \<open>Values, responses and the session store\<close>

text \<open>
  A JSON value, as \<^verbatim>\<open>request.json()\<close> returns it and as \<^verbatim>\<open>JSON.stringify\<close> receives it. Two
  further constructors stand for strings whose text the platform chooses: \<open>JMessage e\<close> is
  \<^verbatim>\<open>error.message\<close> of a platform error \<open>e\<close>, and \<open>JIsoTime t\<close> is
  \<^verbatim>\<open>new Date().toISOString()\<close> at the clock value \<open>t\<close>. Only whether a number is zero matters
  to the worker, so numbers are integers.
\<close>

datatype json =
    JNull
  | JBool bool
  | JNum int
  | JStr string
  | JArr "json list"
  | JObj "(string \<times> json) list"
  | JMessage js_error
  | JIsoTime nat

text \<open>
  The body of a response: none, a text, a value passed to \<^verbatim>\<open>JSON.stringify\<close>, or the body of
  an upstream response passed on unread.
\<close>

datatype body = NoBody | Text ustring | Json json | Stream ustring

record response =
  status :: nat
  headers :: "(string \<times> string) list"
  body :: body

record session =
  originalUrl :: json
  metadata :: json
  timestamp :: nat
  expiresAt :: nat

text \<open>
  \<^verbatim>\<open>sessionStore\<close> is a \<^verbatim>\<open>Map\<close>; its keys are whatever value the request body gave as
  \<^verbatim>\<open>sessionId\<close>, and a proxy request looks a string up. (Object and array keys, which a
  \<^verbatim>\<open>Map\<close> compares by identity, are compared by structure here; no lookup by a string can
  tell the difference.)
\<close>

type_synonym sessionStore = "json \<rightharpoonup> session"

text \<open>
  What a handler does besides answering: the accesses to the store and the upstream
  requests, in the order they happen.
\<close>

datatype event = StoreSet json | StoreGet json | StoreDelete json | Fetch json

text \<open>
  The upstream is a parameter: what \<^verbatim>\<open>fetch(url, {headers})\<close> gives for each URL, a rejected
  promise or a response with status, status text and body. The body is given as the text
  that \<^verbatim>\<open>response.text()\<close> reads from it, and reading it is taken to succeed.
\<close>

datatype upstream = FetchFails js_error | Upstream nat string ustring

text \<open>
  \<^verbatim>\<open>Date.now()\<close> is the parameter \<open>now\<close>, milliseconds since the epoch; the two reads of the
  clock in \<^verbatim>\<open>storeSession\<close> are taken to give the same value.
\<close>

definition storeSession :: "sessionStore \<Rightarrow> json \<Rightarrow> json \<Rightarrow> json \<Rightarrow> nat \<Rightarrow> sessionStore" where
  "storeSession store sessionId url meta now =
     store(sessionId \<mapsto>
       \<lparr>originalUrl = url, metadata = meta, timestamp = now,
        expiresAt = now + 24 * 60 * 60 * 1000\<rparr>)"

definition getSession :: "sessionStore \<Rightarrow> json \<Rightarrow> nat \<Rightarrow> session option \<times> sessionStore \<times> event list" where
  "getSession store sessionId now =
     (case store sessionId of
        None \<Rightarrow> (None, store, [StoreGet sessionId])
      | Some s \<Rightarrow>
          if expiresAt s \<noteq> 0 \<and> now > expiresAt s
          then (None, store(sessionId := None), [StoreGet sessionId, StoreDelete sessionId])
          else (Some s, store, [StoreGet sessionId]))"

definition corsHeaders :: "(string \<times> string) list" where
  "corsHeaders =
     [(''Access-Control-Allow-Origin'', ''*''),
      (''Access-Control-Allow-Methods'', ''GET, POST, PUT, DELETE, OPTIONS, HEAD''),
      (''Access-Control-Allow-Headers'',
         ''Content-Type, Authorization, Range, Accept, Origin, X-Requested-With''),
      (''Access-Control-Expose-Headers'', ''Content-Length, Content-Range, Accept-Ranges''),
      (''Access-Control-Max-Age'', ''86400'')]"

definition header_set :: "(string \<times> string) list \<Rightarrow> string \<times> string \<Rightarrow> (string \<times> string) list" where
  "header_set hs kv = filter (\<lambda>h. fst h \<noteq> fst kv) hs @ [kv]"

definition addCorsHeaders :: "response \<Rightarrow> response" where
  "addCorsHeaders resp = resp\<lparr>headers := foldl header_set (headers resp) corsHeaders\<rparr>"

definition json_response :: "nat \<Rightarrow> json \<Rightarrow> response" where
  "json_response st j =
     addCorsHeaders \<lparr>status = st, headers = [(''Content-Type'', ''application/json'')], body = Json j\<rparr>"

text \<open>
  A response built from a string without a \<^verbatim>\<open>Content-Type\<close> of its own gets the one the
  runtime gives to text.
\<close>

definition text_response :: "nat \<Rightarrow> string \<Rightarrow> response" where
  "text_response st t =
     addCorsHeaders
       \<lparr>status = st, headers = [(''Content-Type'', ''text/plain;charset=UTF-8'')],
        body = Text (units t)\<rparr>"

text \<open>\<^verbatim>\<open>error.message\<close>: known for an \<^verbatim>\<open>Error\<close> the worker throws itself.\<close>

fun message :: "js_error \<Rightarrow> json" where
  "message (Error m) = JStr m"
| "message e = JMessage e"

section \<open>Session creation\<close>

text \<open>
  Reading a property of a parsed body: an object has the fields it has (the last of
  duplicate keys), any other non-null value has none of the three.
\<close>

fun field :: "string \<Rightarrow> json \<Rightarrow> json option" where
  "field k (JObj kvs) = map_of (rev kvs) k"
| "field k v = None"

fun truthy :: "json option \<Rightarrow> bool" where
  "truthy None = False"
| "truthy (Some JNull) = False"
| "truthy (Some (JBool b)) = b"
| "truthy (Some (JNum n)) = (n \<noteq> 0)"
| "truthy (Some (JStr s)) = (s \<noteq> [])"
| "truthy (Some v) = True"

record request =
  http_method :: string
  pathname :: string
  origin :: string
  json_body :: "json option"

text \<open>
  A request: its method, the path and the origin of \<^verbatim>\<open>new URL(request.url)\<close>, and what
  \<^verbatim>\<open>await request.json()\<close> gives (\<open>None\<close> when it throws). Destructuring \<^verbatim>\<open>null\<close> throws too.
\<close>

definition handleStoreSession :: "sessionStore \<Rightarrow> nat \<Rightarrow> request \<Rightarrow> response \<times> sessionStore \<times> event list" where
  "handleStoreSession store now req =
     (if http_method req \<noteq> ''POST'' then (text_response 405 ''Method not allowed'', store, [])
      else (case json_body req of
              None \<Rightarrow> (json_response 400 (JObj [(''error'', JStr ''Invalid JSON payload'')]), store, [])
            | Some JNull \<Rightarrow>
                (json_response 400 (JObj [(''error'', JStr ''Invalid JSON payload'')]), store, [])
            | Some parsed \<Rightarrow>
                (case (field ''sessionId'' parsed, field ''originalUrl'' parsed) of
                   (Some sessionId, Some url) \<Rightarrow>
                     if \<not> truthy (Some sessionId) \<or> \<not> truthy (Some url)
                     then (json_response 400
                             (JObj [(''error'', JStr ''sessionId and originalUrl are required'')]),
                           store, [])
                     else (json_response 200
                             (JObj [(''success'', JBool True), (''sessionId'', sessionId)]),
                           storeSession store sessionId url
                             (case field ''metadata'' parsed of None \<Rightarrow> JObj [] | Some m \<Rightarrow> m) now,
                           [StoreSet sessionId])
                 | _ \<Rightarrow>
                     (json_response 400
                        (JObj [(''error'', JStr ''sessionId and originalUrl are required'')]),
                      store, []))))"

section \<open>Segments and playlists\<close>

definition upstream_ok :: "nat \<Rightarrow> bool" where
  "upstream_ok st = (200 \<le> st \<and> st \<le> 299)"

definition segment_error :: "string \<Rightarrow> js_error \<Rightarrow> response" where
  "segment_error filename e =
     json_response 404
       (JObj [(''error'', JStr ''Segment not available''), (''filename'', JStr filename),
              (''originalError'', message e)])"

text \<open>
  \<^verbatim>\<open>proxyVideoSegment\<close>. A stored \<^verbatim>\<open>originalUrl\<close> that is not a string has no \<^verbatim>\<open>substring\<close>
  method: the call throws a \<^verbatim>\<open>TypeError\<close> inside the \<^verbatim>\<open>try\<close>.
\<close>

definition proxyVideoSegment :: "(json \<Rightarrow> upstream) \<Rightarrow> json \<Rightarrow> string \<Rightarrow> response \<times> event list" where
  "proxyVideoSegment fetch url filename =
     (case url of
        JStr u \<Rightarrow>
          (let baseUrl = substring0 u (lastIndexOf u (CHR ''/''));
               segmentUrl = baseUrl @ ''/'' @ filename
           in case fetch (JStr segmentUrl) of
                FetchFails e \<Rightarrow> (segment_error filename e, [Fetch (JStr segmentUrl)])
              | Upstream st stText content \<Rightarrow>
                  if \<not> upstream_ok st
                  then (segment_error filename (Error (''Failed to fetch segment: '' @ show_nat st)),
                        [Fetch (JStr segmentUrl)])
                  else (addCorsHeaders
                          \<lparr>status = st,
                           headers = [(''Content-Type'', ''video/mp2t''), (''Accept-Ranges'', ''bytes''),
                                      (''Cache-Control'', ''public, max-age=3600'')],
                           body = Stream content\<rparr>,
                        [Fetch (JStr segmentUrl)]))
      | _ \<Rightarrow> (segment_error filename TypeError, []))"

definition playlist_error :: "string \<Rightarrow> string \<Rightarrow> js_error \<Rightarrow> response" where
  "playlist_error filename quality e =
     json_response 500
       (JObj [(''error'', JStr ''Playlist not available''), (''details'', message e),
              (''filename'', JStr filename), (''quality'', JStr quality)])"

text \<open>Lines 153 to 163: the URL the playlist is fetched from.\<close>

definition targetUrl :: "json \<Rightarrow> string \<Rightarrow> string \<Rightarrow> js_error + json" where
  "targetUrl url filename quality =
     (if filename = ''master.m3u8'' then Inr url
      else if filename = ''index.m3u8'' \<or> filename = ''playlist.m3u8'' then
        (case url of
           JStr u \<Rightarrow>
             (let baseUrl = substring0 u (lastIndexOf u (CHR ''/''))
              in Inr (JStr (baseUrl @ ''/'' @ quality @ ''/index.m3u8'')))
         | _ \<Rightarrow> Inl TypeError)
      else Inr url)"

definition proxyM3U8Playlist :: "(json \<Rightarrow> upstream) \<Rightarrow> json \<Rightarrow> string \<Rightarrow> string \<Rightarrow> string \<Rightarrow> string \<Rightarrow> response \<times> event list" where
  "proxyM3U8Playlist fetch url filename quality sessionPath proxyOrigin =
     (case targetUrl url filename quality of
        Inl e \<Rightarrow> (playlist_error filename quality e, [])
      | Inr target \<Rightarrow>
          (case fetch target of
             FetchFails e \<Rightarrow> (playlist_error filename quality e, [Fetch target])
           | Upstream st stText originalPlaylist \<Rightarrow>
               if \<not> upstream_ok st
               then (playlist_error filename quality
                       (Error (''Failed to fetch playlist: '' @ show_nat st @ '' '' @ stText)),
                     [Fetch target])
               else (case rewritePlaylist proxyOrigin sessionPath filename quality
                            originalPlaylist of
                       Inl e \<Rightarrow> (playlist_error filename quality e, [Fetch target])
                     | Inr rewrittenPlaylist \<Rightarrow>
                         (addCorsHeaders
                            \<lparr>status = 200,
                             headers = [(''Content-Type'', ''application/vnd.apple.mpegurl''),
                                        (''Cache-Control'', ''no-cache, no-store, must-revalidate''),
                                        (''Pragma'', ''no-cache''), (''Expires'', ''0'')],
                             body = Text rewrittenPlaylist\<rparr>,
                          [Fetch target]))))"

section \<open>Request handlers\<close>

definition decode_error :: "js_error \<Rightarrow> nat \<Rightarrow> response" where
  "decode_error e now =
     json_response 400
       (JObj [(''error'', JStr ''Failed to decode URL''), (''details'', message e),
              (''timestamp'', JIsoTime now)])"

definition session_not_found :: "string \<Rightarrow> response" where
  "session_not_found sessionPath =
     json_response 404
       (JObj [(''error'', JStr ''Session not found or expired''),
              (''sessionPath'', JStr (take 20 sessionPath @ ''...'')),
              (''note'', JStr ''Session may have expired or was never stored'')])"

definition isSegment :: "string \<Rightarrow> bool" where
  "isSegment filename =
     (endsWith filename ''.ts'' \<or>
      (\<not> includes_str filename ''.m3u8'' \<and> \<not> includes_str filename ''master'' \<and>
       \<not> includes_str filename ''index''))"

definition handleDatacrateProxy :: "sessionStore \<Rightarrow> nat \<Rightarrow> (json \<Rightarrow> upstream) \<Rightarrow> request \<Rightarrow> response \<times> sessionStore \<times> event list" where
  "handleDatacrateProxy store now fetch req =
     (let pathParts = split (CHR ''/'') (pathname req)
      in if length pathParts < 5 then (text_response 400 ''Invalid URL format'', store, [])
         else
           (let sessionPath = pathParts ! 2;
                qualityB64 = pathParts ! 3;
                filenameB64 = pathParts ! 4
            in case decode qualityB64 of
                 Inl e \<Rightarrow> (decode_error e now, store, [])
               | Inr quality \<Rightarrow>
                   (case decode (replaceFirst ''.m3u8'' [] filenameB64) of
                      Inl e \<Rightarrow> (decode_error e now, store, [])
                    | Inr filename \<Rightarrow>
                        (case getSession store (JStr sessionPath) now of
                           (None, store', evs) \<Rightarrow> (session_not_found sessionPath, store', evs)
                         | (Some sessionData, store', evs) \<Rightarrow>
                             if isSegment filename
                             then (case proxyVideoSegment fetch (originalUrl sessionData) filename of
                                     (resp, evs') \<Rightarrow> (resp, store', evs @ evs'))
                             else (case proxyM3U8Playlist fetch (originalUrl sessionData) filename
                                          quality sessionPath (origin req) of
                                     (resp, evs') \<Rightarrow> (resp, store', evs @ evs'))))))"

definition handleLegacyProxy :: "request \<Rightarrow> response" where
  "handleLegacyProxy req =
     (let pathParts = filter (\<lambda>p. p \<noteq> []) (split (CHR ''/'') (pathname req))
      in if length pathParts < 5 then text_response 400 ''Invalid legacy URL format''
         else json_response 410
                (JObj [(''error'', JStr ''Legacy format deprecated''),
                       (''message'',
                          JStr ''Please use the datacrate format: /file2/[session]/[quality]/[filename].m3u8''),
                       (''format'', JStr ''file2/[sessionPath]/[qualityBase64]/[filenameBase64].m3u8''),
                       (''example'',
                          JStr ''/file2/abc123/cXVhbGl0eQ==/cGxheWxpc3QubTN1OA==.m3u8'')]))"

definition handleHealth :: "nat \<Rightarrow> response" where
  "handleHealth now =
     json_response 200
       (JObj [(''status'', JStr ''ok''),
              (''message'', JStr ''HLS Proxy Worker is running''),
              (''timestamp'', JIsoTime now),
              (''endpoints'',
                 JObj [(''store-session'', JStr ''POST /store-session - Store session data''),
                       (''datacrate'',
                          JStr ''GET /file2/[session]/[quality]/[filename] - Proxy HLS streams''),
                       (''legacy'',
                          JStr ''GET /stream/[provider]/[quality]/[type]/[data] - Legacy format''),
                       (''health'', JStr ''GET /health - Health check'')])])"

text \<open>The exported \<^verbatim>\<open>fetch\<close> handler: the routes in the order of the source.\<close>

definition worker_fetch :: "sessionStore \<Rightarrow> nat \<Rightarrow> (json \<Rightarrow> upstream) \<Rightarrow> request \<Rightarrow> response \<times> sessionStore \<times> event list" where
  "worker_fetch store now fetch req =
     (if http_method req = ''OPTIONS''
      then (addCorsHeaders \<lparr>status = 200, headers = [], body = NoBody\<rparr>, store, [])
      else if startsWith (pathname req) ''/store-session'' then handleStoreSession store now req
      else if startsWith (pathname req) ''/file2/'' then handleDatacrateProxy store now fetch req
      else if startsWith (pathname req) ''/stream/'' then (handleLegacyProxy req, store, [])
      else if pathname req = ''/health'' then (handleHealth now, store, [])
      else (addCorsHeaders
              \<lparr>status = 200, headers = [(''Content-Type'', ''text/plain'')],
               body = Text (units ''HLS Proxy Worker - Ready'')\<rparr>,
            store, []))"

section \<open>Lines of a playlist\<close>

text \<open>
  What the replacement does to one line: the expression can only match at the head of the
  line, and then the matched code units give way to the replacer's result.
\<close>

definition rewrite_line :: "ustring \<Rightarrow> (ustring \<Rightarrow> js_error + ustring) \<Rightarrow> ustring \<Rightarrow> js_error + ustring" where
  "rewrite_line suffix r l =
     (case reference_match suffix l of
        None \<Rightarrow> Inr l
      | Some n \<Rightarrow>
          (case r (take n l) of
             Inl e \<Rightarrow> Inl e
           | Inr x \<Rightarrow> Inr (x @ drop n l)))"

text \<open>
  The lines of a text, as multiline mode delimits them: the runs between line terminators
  (LF, CR, U+2028 and U+2029, so that a CR LF pair closes a line and encloses an empty one).
\<close>

fun lines_of :: "ustring \<Rightarrow> ustring list" where
  "lines_of [] = [[]]"
| "lines_of (c # cs) =
     (if isLineTerminator c then [] # lines_of cs
      else (case lines_of cs of
              [] \<Rightarrow> [[c]]
            | l # ls \<Rightarrow> (c # l) # ls))"

text \<open>
  The expression and the replacer that \<^verbatim>\<open>proxyM3U8Playlist\<close> chooses for a requested
  filename.
\<close>

definition suffix_of :: "string \<Rightarrow> ustring" where
  "suffix_of filename = (if filename = ''master.m3u8'' then units ''.m3u8'' else units ''.ts'')"

definition replacer_of :: "string \<Rightarrow> string \<Rightarrow> string \<Rightarrow> string \<Rightarrow> ustring \<Rightarrow> js_error + ustring" where
  "replacer_of proxyOrigin sessionPath filename quality =
     (if filename = ''master.m3u8'' then master_replacer proxyOrigin sessionPath
      else media_replacer proxyOrigin sessionPath quality)"


section \<open>Sample environment\<close>

text \<open>An upstream that cannot be reached, for evaluating handlers on concrete requests.\<close>

definition no_upstream :: "json \<Rightarrow> upstream" where
  "no_upstream url = FetchFails NetworkError"

section \<open>The expression works line by line\<close>


lemma units_Cons: "units (c # s) = of_char c # units s"
  by (simp add: units_def)

lemma units_Nil: "units [] = []"
  by (simp add: units_def)

lemma length_units: "length (units s) = length s"
  by (simp add: units_def)

lemma lt_is_space: "isLineTerminator c \<Longrightarrow> isSpace c"
  by (auto simp: isLineTerminator_def isSpace_def)

lemma startsWith_length: "startsWith s p \<Longrightarrow> length p \<le> length s"
  unfolding startsWith_def by (metis length_take min.cobounded2 min_def nat_le_linear)

lemma startsWith_take: "startsWith s p \<Longrightarrow> n \<le> length p \<Longrightarrow> take n s = take n p"
  unfolding startsWith_def by (metis min.absorb2 take_take min.commute)

lemma startsWith_append_sep:
  assumes "t \<notin> set p"
  shows "startsWith (l @ t # rest) p = startsWith l p"
proof (cases "length p \<le> length l")
  case True
  then show ?thesis by (simp add: startsWith_def)
next
  case False
  then have "\<not> startsWith l p" using startsWith_length by blast
  moreover have "\<not> startsWith (l @ t # rest) p"
  proof
    assume "startsWith (l @ t # rest) p"
    then have "take (length p) (l @ t # rest) = p" by (simp add: startsWith_def)
    moreover have "t \<in> set (take (length p) (l @ t # rest))"
      using False by (cases "length p - length l") auto
    ultimately show False using assms by simp
  qed
  ultimately show ?thesis by simp
qed

lemma nonSpaceRun_append_space:
  "isSpace t \<Longrightarrow> nonSpaceRun (a @ t # b) = nonSpaceRun a"
  unfolding nonSpaceRun_def by (induction a) auto

lemma scheme_units:
  "length (units ''https://'') = 8" "length (units ''http://'') = 7"
  "\<forall>c\<in>set (units ''https://''). \<not> isSpace c" "\<forall>c\<in>set (units ''http://''). \<not> isSpace c"
  "\<forall>c\<in>set (units ''#''). \<not> isSpace c"
  by (simp_all add: units_def isSpace_def)

lemma match_absolute_local:
  assumes "isSpace t"
  shows "match_absolute (l @ t # rest) = match_absolute l"
proof -
  have t1: "t \<notin> set (units ''https://'')" and t2: "t \<notin> set (units ''http://'')"
    using assms scheme_units(3,4) by blast+
  have d8: "startsWith l (units ''https://'') \<Longrightarrow> drop 8 (l @ t # rest) = drop 8 l @ t # rest"
    using startsWith_length[of l "units ''https://''"] by (simp add: scheme_units)
  have d7: "startsWith l (units ''http://'') \<Longrightarrow> drop 7 (l @ t # rest) = drop 7 l @ t # rest"
    using startsWith_length[of l "units ''http://''"] by (simp add: scheme_units)
  show ?thesis
    unfolding match_absolute_def
    using startsWith_append_sep[OF t1, of l rest] startsWith_append_sep[OF t2, of l rest] d7 d8
    by (simp add: nonSpaceRun_append_space[OF assms])
qed

lemma match_relative_local:
  assumes "isSpace t"
  shows "match_relative suffix (l @ t # rest) = match_relative suffix l"
  using assms by (cases l) (simp_all add: match_relative_def nonSpaceRun_append_space)

lemma reference_match_local:
  assumes "isSpace t"
  shows "reference_match suffix (l @ t # rest) = reference_match suffix l"
proof -
  have "t \<notin> set (units ''#'')" using assms scheme_units(5) by blast
  from startsWith_append_sep[OF this, of l rest] show ?thesis
    unfolding reference_match_def
    by (simp only: match_absolute_local[OF assms] match_relative_local[OF assms])
qed

lemma reference_match_Nil: "reference_match suffix [] = None"
  by (simp add: reference_match_def match_absolute_def match_relative_def startsWith_def units_def)

lemma backtrack_sound:
  "backtrack suffix r k0 = Some k \<Longrightarrow> k \<le> k0 \<and> startsWith (drop k r) suffix"
  by (induction k0) (auto split: if_splits)

lemma nonSpaceRun_Cons:
  "\<not> isSpace c \<Longrightarrow> nonSpaceRun (c # cs) = c # nonSpaceRun cs"
  by (simp add: nonSpaceRun_def)

lemma nonSpaceRun_prefix:
  "\<forall>c\<in>set p. \<not> isSpace c \<Longrightarrow> nonSpaceRun (p @ s) = p @ nonSpaceRun s"
  by (induction p) (simp_all add: nonSpaceRun_def)

lemma startsWith_split: "startsWith s p \<Longrightarrow> s = p @ drop (length p) s"
  unfolding startsWith_def by (metis append_take_drop_id)

lemma match_absolute_bound:
  assumes "match_absolute s = Some n"
  shows "0 < n \<and> n \<le> length (nonSpaceRun s)"
proof (cases "startsWith s (units ''https://'')")
  case True
  have "s = units ''https://'' @ drop 8 s"
    using startsWith_split[OF True, unfolded scheme_units(1)] .
  then have "nonSpaceRun s = units ''https://'' @ nonSpaceRun (drop 8 s)"
    using nonSpaceRun_prefix[OF scheme_units(3), of "drop 8 s"] by simp
  with assms True show ?thesis
    by (auto simp: match_absolute_def scheme_units split: if_splits)
next
  case False
  then have h: "startsWith s (units ''http://'')" using assms
    by (auto simp: match_absolute_def split: if_splits)
  have "s = units ''http://'' @ drop 7 s"
    using startsWith_split[OF h, unfolded scheme_units(2)] .
  then have "nonSpaceRun s = units ''http://'' @ nonSpaceRun (drop 7 s)"
    using nonSpaceRun_prefix[OF scheme_units(4), of "drop 7 s"] by simp
  with assms False h show ?thesis
    by (auto simp: match_absolute_def scheme_units split: if_splits)
qed

lemma match_relative_bound:
  assumes "match_relative suffix s = Some n"
  shows "0 < n \<and> n \<le> length (nonSpaceRun s)"
proof (cases s)
  case Nil
  with assms show ?thesis by (simp add: match_relative_def)
next
  case (Cons c cs)
  with assms have c: "\<not> isSpace c"
    and "\<exists>k. backtrack suffix (nonSpaceRun cs) (length (nonSpaceRun cs)) = Some k \<and>
             n = 1 + k + length suffix"
    by (auto simp: match_relative_def split: if_splits option.splits)
  then obtain k where k: "backtrack suffix (nonSpaceRun cs) (length (nonSpaceRun cs)) = Some k"
    and n: "n = 1 + k + length suffix" by blast
  from backtrack_sound[OF k] have "startsWith (drop k (nonSpaceRun cs)) suffix"
    and "k \<le> length (nonSpaceRun cs)" by auto
  from startsWith_length[OF this(1)] this(2)
  have "k + length suffix \<le> length (nonSpaceRun cs)" by simp
  with n c Cons show ?thesis by (simp add: nonSpaceRun_Cons)
qed

lemma reference_match_bound:
  assumes "reference_match suffix s = Some n"
  shows "0 < n \<and> n \<le> length (nonSpaceRun s)"
  using assms match_absolute_bound match_relative_bound
  by (auto simp: reference_match_def split: if_splits option.splits)

lemma nonSpaceRun_no_terminator:
  "length (nonSpaceRun s) \<le> length (takeWhile (\<lambda>c. \<not> isLineTerminator c) s)"
  unfolding nonSpaceRun_def by (induction s) (auto dest: lt_is_space)

lemma reference_match_at_space:
  "isSpace t \<Longrightarrow> reference_match suffix (t # rest) = None"
  using reference_match_local[of t suffix "[]" rest] by (simp add: reference_match_Nil)

lemma prepend_prepend: "prepend x (prepend y z) = prepend (x @ y) z"
  by (cases z) simp_all

lemma prepend_Nil: "prepend [] z = z"
  by (cases z) simp_all

lemma replace_gm_copy:
  assumes "\<not> atLineStart prev" "\<forall>c\<in>set l. \<not> isLineTerminator c"
  shows "replace_gm m r prev (l @ rest) =
         prepend l (replace_gm m r (if l = [] then prev else Some (last l)) rest)"
  using assms
proof (induction l arbitrary: prev)
  case Nil
  then show ?case by (simp add: prepend_Nil)
next
  case (Cons c cs)
  have nl: "\<not> atLineStart (Some c)" using Cons.prems(2) by (simp add: atLineStart_def)
  have "replace_gm m r prev ((c # cs) @ rest) = prepend [c] (replace_gm m r (Some c) (cs @ rest))"
    using Cons.prems(1) by simp
  also have "replace_gm m r (Some c) (cs @ rest) =
     prepend cs (replace_gm m r (if cs = [] then Some c else Some (last cs)) rest)"
    using Cons.IH[OF nl] Cons.prems(2) by simp
  finally show ?case by (simp add: prepend_prepend)
qed

lemma replace_gm_copy_to_terminator:
  assumes "\<not> atLineStart prev" "\<forall>c\<in>set l. \<not> isLineTerminator c" "isLineTerminator t"
  shows "replace_gm m r prev (l @ t # rest) = prepend (l @ [t]) (replace_gm m r (Some t) rest)"
proof -
  have "\<not> atLineStart (if l = [] then prev else Some (last l))"
    using assms(1,2) by (auto simp: atLineStart_def)
  then have "replace_gm m r (if l = [] then prev else Some (last l)) (t # rest)
     = prepend [t] (replace_gm m r (Some t) rest)" by simp
  with replace_gm_copy[OF assms(1,2), of m r "t # rest"] show ?thesis
    by (simp add: prepend_prepend)
qed

lemma replace_gm_copy_to_end:
  assumes "\<not> atLineStart prev" "\<forall>c\<in>set l. \<not> isLineTerminator c"
  shows "replace_gm m r prev l = Inr l"
proof -
  have "\<not> atLineStart (if l = [] then prev else Some (last l))"
    using assms by (auto simp: atLineStart_def)
  then show ?thesis using replace_gm_copy[OF assms, of m r "[]"] by simp
qed

lemma takeWhile_all: "\<forall>c\<in>set l. P c \<Longrightarrow> takeWhile P l = l"
  by (induction l) auto

lemma reference_match_in_line:
  assumes "reference_match suffix l = Some n" "\<forall>c\<in>set l. \<not> isLineTerminator c"
  shows "0 < n" "n \<le> length l" "\<not> atLineStart (Some (last (take n l)))"
proof -
  from reference_match_bound[OF assms(1)] show n: "0 < n" by simp
  from reference_match_bound[OF assms(1)] nonSpaceRun_no_terminator[of l]
  show le: "n \<le> length l" by (simp add: takeWhile_all[OF assms(2)])
  have "take n l \<noteq> []" using n le by auto
  then have "last (take n l) \<in> set (take n l)" by simp
  then have "last (take n l) \<in> set l" by (meson in_set_takeD)
  with assms(2) show "\<not> atLineStart (Some (last (take n l)))" by (simp add: atLineStart_def)
qed

lemma replace_gm_match:
  assumes "atLineStart prev" "m s = Some n" "0 < n" "s \<noteq> []"
  shows "replace_gm m r prev s =
         (case r (take n s) of
            Inl e \<Rightarrow> Inl e
          | Inr x \<Rightarrow> prepend x (replace_gm m r (Some (last (take n s))) (drop n s)))"
proof (cases s)
  case Nil
  with assms(4) show ?thesis by simp
next
  case (Cons a list)
  show ?thesis unfolding Cons using assms(1,2,3)[unfolded Cons] by simp
qed

text \<open>One line, closed by a terminator, and the scan behind it.\<close>

lemma replace_gm_line:
  assumes "atLineStart prev" "\<forall>c\<in>set l. \<not> isLineTerminator c" "isLineTerminator t"
  shows "replace_gm (reference_match suffix) r prev (l @ t # rest) =
         (case rewrite_line suffix r l of
            Inl e \<Rightarrow> Inl e
          | Inr x \<Rightarrow> prepend (x @ [t]) (replace_gm (reference_match suffix) r (Some t) rest))"
proof (cases l)
  case Nil
  then show ?thesis
    using assms(1,3)
    by (simp add: rewrite_line_def reference_match_Nil reference_match_at_space lt_is_space)
next
  case (Cons c cs)
  have loc: "reference_match suffix ((c # cs) @ t # rest) = reference_match suffix (c # cs)"
    using reference_match_local[OF lt_is_space[OF assms(3)]] by blast
  show ?thesis
  proof (cases "reference_match suffix l")
    case None
    have nl: "\<not> atLineStart (Some c)" using assms(2) Cons by (simp add: atLineStart_def)
    have "replace_gm (reference_match suffix) r prev (l @ t # rest)
        = prepend [c] (replace_gm (reference_match suffix) r (Some c) (cs @ t # rest))"
      using assms(1) None loc Cons by simp
    also have "replace_gm (reference_match suffix) r (Some c) (cs @ t # rest)
        = prepend (cs @ [t]) (replace_gm (reference_match suffix) r (Some t) rest)"
      using replace_gm_copy_to_terminator[OF nl _ assms(3)] assms(2) Cons by simp
    finally show ?thesis using None Cons by (simp add: rewrite_line_def prepend_prepend)
  next
    case (Some n)
    note im = reference_match_in_line[OF Some assms(2)]
    have dr: "drop n (l @ t # rest) = drop n l @ t # rest"
      and tk: "take n (l @ t # rest) = take n l"
      using im(2) by simp_all
    have cp: "replace_gm (reference_match suffix) r (Some (last (take n l))) (drop n l @ t # rest)
        = prepend (drop n l @ [t]) (replace_gm (reference_match suffix) r (Some t) rest)"
      using replace_gm_copy_to_terminator[OF im(3) _ assms(3)] assms(2) by (meson in_set_dropD)
    have m: "reference_match suffix (l @ t # rest) = Some n" using loc Some Cons by simp
    have "replace_gm (reference_match suffix) r prev (l @ t # rest)
        = (case r (take n l) of
             Inl e \<Rightarrow> Inl e
           | Inr x \<Rightarrow> prepend x
               (replace_gm (reference_match suffix) r (Some (last (take n l))) (drop n l @ t # rest)))"
      using replace_gm_match[of prev "reference_match suffix" "l @ t # rest" n r, unfolded dr tk]
        assms(1) m im(1) by simp
    then show ?thesis
      unfolding cp using Some by (simp add: rewrite_line_def prepend_prepend split: sum.splits)
  qed
qed

lemma replace_gm_last_line:
  assumes "atLineStart prev" "\<forall>c\<in>set l. \<not> isLineTerminator c"
  shows "replace_gm (reference_match suffix) r prev l = rewrite_line suffix r l"
proof (cases l)
  case Nil
  then show ?thesis by (simp add: rewrite_line_def reference_match_Nil)
next
  case (Cons c cs)
  show ?thesis
  proof (cases "reference_match suffix l")
    case None
    have nl: "\<not> atLineStart (Some c)" using assms(2) Cons by (simp add: atLineStart_def)
    have "replace_gm (reference_match suffix) r prev l
        = prepend [c] (replace_gm (reference_match suffix) r (Some c) cs)"
      using assms(1) None Cons by simp
    also have "replace_gm (reference_match suffix) r (Some c) cs = Inr cs"
      using replace_gm_copy_to_end[OF nl] assms(2) Cons by simp
    finally show ?thesis using None Cons by (simp add: rewrite_line_def)
  next
    case (Some n)
    note im = reference_match_in_line[OF Some assms(2)]
    have cp: "replace_gm (reference_match suffix) r (Some (last (take n l))) (drop n l) = Inr (drop n l)"
      using replace_gm_copy_to_end[OF im(3)] assms(2) by (meson in_set_dropD)
    have "replace_gm (reference_match suffix) r prev l
        = (case r (take n l) of
             Inl e \<Rightarrow> Inl e
           | Inr x \<Rightarrow> prepend x
               (replace_gm (reference_match suffix) r (Some (last (take n l))) (drop n l)))"
      using replace_gm_match[of prev "reference_match suffix" l n r] assms(1) Some im(1) Cons
      by simp
    then show ?thesis
      unfolding cp using Some by (simp add: rewrite_line_def split: sum.splits)
  qed
qed

lemma lines_of_single:
  "\<forall>c\<in>set l. \<not> isLineTerminator c \<Longrightarrow> lines_of l = [l]"
  by (induction l) auto

lemma lines_of_append:
  "\<forall>c\<in>set l. \<not> isLineTerminator c \<Longrightarrow> isLineTerminator t \<Longrightarrow>
   lines_of (l @ t # rest) = l # lines_of rest"
  by (induction l) auto

lemma first_terminator:
  assumes "\<exists>c\<in>set s. isLineTerminator c"
  obtains l t rest where "s = l @ t # rest" "\<forall>c\<in>set l. \<not> isLineTerminator c" "isLineTerminator t"
  using assms split_list_first_prop[of s isLineTerminator] by blast

lemma rewrite_line_no_terminator:
  assumes "\<forall>x y. r x = Inr y \<longrightarrow> (\<forall>c\<in>set y. \<not> isLineTerminator c)"
    and "\<forall>c\<in>set l. \<not> isLineTerminator c"
    and "rewrite_line suffix r l = Inr x"
  shows "\<forall>c\<in>set x. \<not> isLineTerminator c"
proof (cases "reference_match suffix l")
  case None
  with assms(2,3) show ?thesis by (simp add: rewrite_line_def)
next
  case (Some n)
  with assms(3) obtain y where y: "r (take n l) = Inr y" and x: "x = y @ drop n l"
    by (auto simp: rewrite_line_def split: sum.splits)
  have "\<forall>c\<in>set y. \<not> isLineTerminator c" using assms(1) y by blast
  moreover have "\<forall>c\<in>set (drop n l). \<not> isLineTerminator c"
    using assms(2) by (meson in_set_dropD)
  ultimately show ?thesis unfolding x by auto
qed

text \<open>
  When the call returns a text, its lines are the rewritten lines of the input, one for
  one, and the line terminators are those of the input.
\<close>

lemma lines_of_replace_gm:
  assumes "\<forall>x y. r x = Inr y \<longrightarrow> (\<forall>c\<in>set y. \<not> isLineTerminator c)"
    and "atLineStart prev"
    and "replace_gm (reference_match suffix) r prev s = Inr out"
  shows "map Inr (lines_of out) = map (rewrite_line suffix r) (lines_of s) \<and>
         filter isLineTerminator out = filter isLineTerminator s"
  using assms(2,3)
proof (induction "length s" arbitrary: s prev out rule: less_induct)
  case less
  show ?case
  proof (cases "\<exists>c\<in>set s. isLineTerminator c")
    case False
    then have ns: "\<forall>c\<in>set s. \<not> isLineTerminator c" by blast
    have rl: "rewrite_line suffix r s = Inr out"
      using replace_gm_last_line[OF less.prems(1) ns, of suffix r] less.prems(2) by simp
    from rewrite_line_no_terminator[OF assms(1) ns rl]
    have no: "\<forall>c\<in>set out. \<not> isLineTerminator c" .
    show ?thesis
      using rl ns no by (simp add: lines_of_single filter_empty_conv[THEN iffD2])
  next
    case True
    then obtain l t rest where s: "s = l @ t # rest"
      and nl: "\<forall>c\<in>set l. \<not> isLineTerminator c" and t: "isLineTerminator t"
      by (rule first_terminator)
    have st: "atLineStart (Some t)" using t by (simp add: atLineStart_def)
    from less.prems(2) obtain x y where x: "rewrite_line suffix r l = Inr x"
      and y: "replace_gm (reference_match suffix) r (Some t) rest = Inr y"
      and out: "out = x @ t # y"
      unfolding s replace_gm_line[OF less.prems(1) nl t]
      by (cases "rewrite_line suffix r l";
          cases "replace_gm (reference_match suffix) r (Some t) rest") auto
    have "length rest < length s" using s by simp
    from less.hyps[OF this st y]
    have ih: "map Inr (lines_of y) = map (rewrite_line suffix r) (lines_of rest)"
      "filter isLineTerminator y = filter isLineTerminator rest" by simp_all
    from rewrite_line_no_terminator[OF assms(1) nl x]
    have nx: "\<forall>c\<in>set x. \<not> isLineTerminator c" .
    have a: "filter isLineTerminator x = []" using nx by (simp add: filter_empty_conv)
    have b: "filter isLineTerminator l = []" using nl by (simp add: filter_empty_conv)
    show ?thesis
      unfolding s out
      using lines_of_append[OF nx t] lines_of_append[OF nl t] ih x a b t by simp
  qed
qed

text \<open>The call returns a text when the replacer does so on every line.\<close>

lemma replace_gm_returns:
  assumes "atLineStart prev"
    and "\<forall>l\<in>set (lines_of s). \<exists>x. rewrite_line suffix r l = Inr x"
  shows "\<exists>out. replace_gm (reference_match suffix) r prev s = Inr out"
  using assms
proof (induction "length s" arbitrary: s prev rule: less_induct)
  case less
  show ?case
  proof (cases "\<exists>c\<in>set s. isLineTerminator c")
    case False
    then have ns: "\<forall>c\<in>set s. \<not> isLineTerminator c" by blast
    then have "lines_of s = [s]" by (rule lines_of_single)
    with less.prems(2) obtain x where "rewrite_line suffix r s = Inr x" by auto
    then show ?thesis using replace_gm_last_line[OF less.prems(1) ns, of suffix r] by simp
  next
    case True
    then obtain l t rest where s: "s = l @ t # rest"
      and nl: "\<forall>c\<in>set l. \<not> isLineTerminator c" and t: "isLineTerminator t"
      by (rule first_terminator)
    have st: "atLineStart (Some t)" using t by (simp add: atLineStart_def)
    have ls: "lines_of s = l # lines_of rest" unfolding s by (rule lines_of_append[OF nl t])
    from less.prems(2) ls obtain x where x: "rewrite_line suffix r l = Inr x" by auto
    have "length rest < length s" using s by simp
    moreover have "\<forall>l\<in>set (lines_of rest). \<exists>x. rewrite_line suffix r l = Inr x"
      using less.prems(2) ls by simp
    ultimately obtain y where y: "replace_gm (reference_match suffix) r (Some t) rest = Inr y"
      using less.hyps[OF _ st] by blast
    show ?thesis
      unfolding s replace_gm_line[OF less.prems(1) nl t] using x y by simp
  qed
qed

lemma reference_match_unmatched:
  assumes "l = [] \<or> hd l = of_char (CHR ''#'') \<or> isSpace (hd l)"
  shows "reference_match suffix l = None"
proof (cases l)
  case Nil
  then show ?thesis by (simp add: reference_match_Nil)
next
  case (Cons c cs)
  with assms consider "c = of_char (CHR ''#'')" | "isSpace c" by auto
  then show ?thesis
  proof cases
    case 1
    then show ?thesis using Cons by (simp add: reference_match_def startsWith_def units_def)
  next
    case 2
    then show ?thesis using Cons reference_match_at_space by simp
  qed
qed

section \<open>Properties of the codec\<close>

lemma b64chr_in_alphabet: "n < 64 \<Longrightarrow> b64chr n \<in> set b64_alphabet"
  unfolding b64chr_def by (rule nth_mem) (simp add: b64_alphabet_def)

lemma b64_groups_chars:
  "\<forall>x\<in>set xs. x < 256 \<Longrightarrow> c \<in> set (b64_groups xs) \<Longrightarrow> c \<in> set b64_alphabet \<or> c = CHR ''=''"
proof (induction xs rule: b64_groups.induct)
  case 1
  then show ?case by simp
next
  case (2 a)
  then have "a div 4 < 64" "(a mod 4) * 16 < 64" by auto
  with 2 show ?case by (auto intro: b64chr_in_alphabet)
next
  case (3 a b)
  then have "a div 4 < 64" "(a mod 4) * 16 + b div 16 < 64" "(b mod 16) * 4 < 64" by auto
  with 3 show ?case by (auto intro: b64chr_in_alphabet)
next
  case (4 a b c' r)
  then have "a div 4 < 64" "(a mod 4) * 16 + b div 16 < 64" "(b mod 16) * 4 + c' div 64 < 64" "c' mod 64 < 64"
    by auto
  with 4 show ?case by (auto intro: b64chr_in_alphabet)
qed

lemma of_char_bound: "(of_char c :: nat) < 256"
  by (metis of_char_mod_256 mod_less_divisor zero_less_numeral)

lemma encode_chars: "c \<in> set (encode s) \<Longrightarrow> c \<in> set b64_alphabet"
  using b64_groups_chars[of "map of_char s" c]
  by (auto simp: encode_def btoa_def of_char_bound)

lemma alphabet_not_ws: "c \<in> set b64_alphabet \<Longrightarrow> \<not> isAsciiWhitespace c \<and> c \<noteq> CHR ''=''"
  by (auto simp: b64_alphabet_def isAsciiWhitespace_def)

lemma b64_groups_length:
  "\<forall>x\<in>set xs. x < 256 \<Longrightarrow>
   length (filter (\<lambda>c. c \<noteq> CHR ''='') (b64_groups xs)) mod 4 =
     (if length xs mod 3 = 0 then 0 else if length xs mod 3 = 1 then 2 else 3)"
proof (induction xs rule: b64_groups.induct)
  case 1
  then show ?case by simp
next
  case (2 a)
  then have "a div 4 < 64" "(a mod 4) * 16 < 64" by auto
  then show ?case using alphabet_not_ws b64chr_in_alphabet by simp
next
  case (3 a b)
  then have "a div 4 < 64" "(a mod 4) * 16 + b div 16 < 64" "(b mod 16) * 4 < 64" by auto
  then show ?case using alphabet_not_ws b64chr_in_alphabet by simp
next
  case (4 a b c' r)
  then have "a div 4 < 64" "(a mod 4) * 16 + b div 16 < 64" "(b mod 16) * 4 + c' div 64 < 64" "c' mod 64 < 64"
    by auto
  then have "length (filter (\<lambda>c. c \<noteq> CHR ''='') (b64_groups (a # b # c' # r))) =
     4 + length (filter (\<lambda>c. c \<noteq> CHR ''='') (b64_groups r))"
    using alphabet_not_ws b64chr_in_alphabet by simp
  moreover have "length (a # b # c' # r) mod 3 = length r mod 3" by simp
  ultimately show ?case using 4 by simp
qed

lemma encode_length:
  "length (encode s) mod 4 =
     (if length s mod 3 = 0 then 0 else if length s mod 3 = 1 then 2 else 3)"
  using b64_groups_length[of "map of_char s"] by (simp add: encode_def btoa_def of_char_bound)

lemma b64val_pad: "b64val (CHR ''='') = None"
  by (simp add: b64val_def)

lemma those_map_None: "x \<in> set xs \<Longrightarrow> f x = None \<Longrightarrow> those (map f xs) = None"
  by (induction xs) (auto split: option.splits)

lemma atob_length_one:
  "filter (\<lambda>c. \<not> isAsciiWhitespace c) x = x \<Longrightarrow> length x mod 4 = 1 \<Longrightarrow>
   atob x = Inl InvalidCharacterError"
  by (simp add: atob_def)

lemma atob_bad_character:
  "filter (\<lambda>c. \<not> isAsciiWhitespace c) x = x \<Longrightarrow> length x mod 4 = 2 \<Longrightarrow>
   those (map b64val x) = None \<Longrightarrow> atob x = Inl InvalidCharacterError"
  by (simp add: atob_def)



lemma encode_js_chars:
  assumes "encode_js s = Inr b"
  shows "set b \<subseteq> set b64_alphabet"
proof -
  from assms have "b = encode (map char_of s)"
    by (auto simp: encode_js_def btoa_js_def encode_def split: if_splits)
  then show ?thesis using encode_chars by blast
qed

lemma encode_js_returns:
  "\<forall>c\<in>set s. 0 \<le> c \<and> c < 256 \<Longrightarrow> \<exists>b. encode_js s = Inr b"
  by (simp add: encode_js_def btoa_js_def)

lemma alphabet_units_no_terminator: "\<forall>c\<in>set (units b64_alphabet). \<not> isLineTerminator c"
  by code_simp

lemma units_no_terminator:
  "set s \<subseteq> set b64_alphabet \<Longrightarrow> \<forall>c\<in>set (units s). \<not> isLineTerminator c"
  using alphabet_units_no_terminator by (auto simp: units_def)

lemma master_replacer_no_quality:
  "detect_quality x = None \<Longrightarrow>
   master_replacer proxyOrigin S x =
     Inr (units (proxyOrigin @ ''/file2/'' @ S @ ''/dW5rbm93bg/aW5kZXgubTN1OA.m3u8''))"
proof -
  have "encode_js (units ''unknown'') = Inr ''dW5rbm93bg''" by code_simp
  moreover have "encode ''index.m3u8'' = ''aW5kZXgubTN1OA''" by code_simp
  ultimately show "detect_quality x = None \<Longrightarrow> ?thesis"
    by (simp add: master_replacer_def)
qed

section \<open>Properties of the rewriter\<close>

lemma rewritePlaylist_alt:
  "rewritePlaylist proxyOrigin sessionPath filename quality playlist =
   replace_gm (reference_match (suffix_of filename))
     (replacer_of proxyOrigin sessionPath filename quality) None playlist"
  by (simp add: rewritePlaylist_def suffix_of_def replacer_of_def)

lemma no_terminator_append:
  "(\<forall>c\<in>set (a @ b). \<not> isLineTerminator c) =
   ((\<forall>c\<in>set a. \<not> isLineTerminator c) \<and> (\<forall>c\<in>set b. \<not> isLineTerminator c))"
  by auto

lemma encode_no_terminator: "\<forall>c\<in>set (units (encode s)). \<not> isLineTerminator c"
  by (rule units_no_terminator) (auto dest: encode_chars)

lemma literal_no_terminator:
  "\<forall>c\<in>set (units ''/file2/''). \<not> isLineTerminator c"
  "\<forall>c\<in>set (units ''/''). \<not> isLineTerminator c"
  "\<forall>c\<in>set (units ''.m3u8''). \<not> isLineTerminator c"
  by code_simp+

lemma master_replacer_shape:
  assumes "master_replacer proxyOrigin sessionPath x = Inr y"
  obtains q where "set q \<subseteq> set b64_alphabet"
    and "y = units proxyOrigin @ units ''/file2/'' @ units sessionPath @ units ''/'' @ units q @
             units ''/'' @ units (encode ''index.m3u8'') @ units ''.m3u8''"
proof -
  from assms obtain q
    where q: "encode_js (case detect_quality x of Some q \<Rightarrow> q | None \<Rightarrow> units ''unknown'') = Inr q"
      and y: "y = units (proxyOrigin @ ''/file2/'' @ sessionPath @ ''/'' @ q @ ''/'' @
                         encode ''index.m3u8'' @ ''.m3u8'')"
    by (auto simp: master_replacer_def Let_def split: sum.splits)
  show ?thesis
    by (rule that[OF encode_js_chars[OF q]]) (simp add: y units_def)
qed

lemma media_replacer_shape:
  assumes "media_replacer proxyOrigin sessionPath quality x = Inr y"
  obtains b where "encode_js (last (split (of_char (CHR ''/'')) x)) = Inr b"
    and "y = units proxyOrigin @ units ''/file2/'' @ units sessionPath @ units ''/'' @
             units (encode quality) @ units ''/'' @ units b"
proof -
  from assms obtain b
    where b: "encode_js (last (split (of_char (CHR ''/'')) x)) = Inr b"
      and y: "y = units (proxyOrigin @ ''/file2/'' @ sessionPath @ ''/'' @ encode quality @ ''/'' @ b)"
    by (auto simp: media_replacer_def Let_def split: sum.splits)
  show ?thesis
    by (rule that[OF b]) (simp add: y units_def)
qed

lemma master_replacer_no_terminator:
  assumes "\<forall>c\<in>set (units proxyOrigin). \<not> isLineTerminator c"
    and "\<forall>c\<in>set (units sessionPath). \<not> isLineTerminator c"
    and "master_replacer proxyOrigin sessionPath x = Inr y"
  shows "\<forall>c\<in>set y. \<not> isLineTerminator c"
proof -
  from assms(3) obtain q where q: "set q \<subseteq> set b64_alphabet"
    and y: "y = units proxyOrigin @ units ''/file2/'' @ units sessionPath @ units ''/'' @ units q @
             units ''/'' @ units (encode ''index.m3u8'') @ units ''.m3u8''"
    by (rule master_replacer_shape)
  show ?thesis
    unfolding y no_terminator_append
    by (intro conjI assms(1,2) literal_no_terminator encode_no_terminator
          units_no_terminator[OF q])
qed

lemma media_replacer_no_terminator:
  assumes "\<forall>c\<in>set (units proxyOrigin). \<not> isLineTerminator c"
    and "\<forall>c\<in>set (units sessionPath). \<not> isLineTerminator c"
    and "media_replacer proxyOrigin sessionPath quality x = Inr y"
  shows "\<forall>c\<in>set y. \<not> isLineTerminator c"
proof -
  from assms(3) obtain b where b: "encode_js (last (split (of_char (CHR ''/'')) x)) = Inr b"
    and y: "y = units proxyOrigin @ units ''/file2/'' @ units sessionPath @ units ''/'' @
             units (encode quality) @ units ''/'' @ units b"
    by (rule media_replacer_shape)
  show ?thesis
    unfolding y no_terminator_append
    by (intro conjI assms(1,2) literal_no_terminator encode_no_terminator
          units_no_terminator[OF encode_js_chars[OF b]])
qed

lemma replacer_no_terminator:
  assumes "\<forall>c\<in>set (units proxyOrigin). \<not> isLineTerminator c"
    and "\<forall>c\<in>set (units sessionPath). \<not> isLineTerminator c"
  shows "\<forall>x y. replacer_of proxyOrigin sessionPath filename quality x = Inr y \<longrightarrow>
           (\<forall>c\<in>set y. \<not> isLineTerminator c)"
proof (cases "filename = ''master.m3u8''")
  case True
  then have "replacer_of proxyOrigin sessionPath filename quality =
             master_replacer proxyOrigin sessionPath"
    by (simp add: replacer_of_def)
  then show ?thesis using master_replacer_no_terminator[OF assms] by simp
next
  case False
  then have "replacer_of proxyOrigin sessionPath filename quality =
             media_replacer proxyOrigin sessionPath quality"
    by (simp add: replacer_of_def)
  then show ?thesis using media_replacer_no_terminator[OF assms] by simp
qed

lemma atLineStart_None: "atLineStart None"
  by (simp add: atLineStart_def)

lemma lines_of_rewritePlaylist:
  assumes "\<forall>c\<in>set (units proxyOrigin). \<not> isLineTerminator c"
    and "\<forall>c\<in>set (units sessionPath). \<not> isLineTerminator c"
    and "rewritePlaylist proxyOrigin sessionPath filename quality playlist = Inr out"
  shows "map Inr (lines_of out) =
           map (rewrite_line (suffix_of filename)
                  (replacer_of proxyOrigin sessionPath filename quality)) (lines_of playlist)"
    and "filter isLineTerminator out = filter isLineTerminator playlist"
  using lines_of_replace_gm[OF replacer_no_terminator[OF assms(1,2)] atLineStart_None
          assms(3)[unfolded rewritePlaylist_alt]]
  by simp_all

lemma rewritten_line:
  assumes "map Inr (lines_of out) = map f (lines_of playlist)" "i < length (lines_of playlist)"
  shows "f (lines_of playlist ! i) = Inr (lines_of out ! i)"
proof -
  have len: "length (lines_of out) = length (lines_of playlist)"
    using assms(1) by (metis length_map)
  have "map Inr (lines_of out) ! i = map f (lines_of playlist) ! i" using assms(1) by simp
  then show ?thesis using assms(2) len by simp
qed

lemma rewrite_line_cases:
  assumes "rewrite_line suffix r l = Inr x"
  shows "x = l \<or>
         (\<exists>n y. 0 < n \<and> n \<le> length (nonSpaceRun l) \<and> r (take n l) = Inr y \<and>
                x = y @ drop n l)"
proof (cases "reference_match suffix l")
  case None
  with assms show ?thesis by (simp add: rewrite_line_def)
next
  case (Some n)
  with assms obtain y where "r (take n l) = Inr y" "x = y @ drop n l"
    by (auto simp: rewrite_line_def split: sum.splits)
  with reference_match_bound[OF Some] show ?thesis by blast
qed

lemma rewrite_line_unmatched:
  assumes "l = [] \<or> hd l = of_char (CHR ''#'') \<or> (\<forall>c\<in>set l. isSpace c)"
  shows "rewrite_line suffix r l = Inr l"
proof -
  have "l = [] \<or> hd l = of_char (CHR ''#'') \<or> isSpace (hd l)"
    using assms by (cases l) auto
  from reference_match_unmatched[OF this] show ?thesis by (simp add: rewrite_line_def)
qed

text \<open>When the rewriter returns a playlist.\<close>

lemma quality_at_latin:
  assumes "quality_at s = Some q"
  shows "\<forall>c\<in>set q. 0 \<le> c \<and> c < 256"
proof -
  have d: "\<And>t. \<forall>c\<in>set (takeWhile isDigit t). 0 \<le> c \<and> c < 256"
    by (auto simp: isDigit_def dest: set_takeWhileD)
  have l: "\<forall>c\<in>set (units ''p''). 0 \<le> c \<and> c < 256" "\<forall>c\<in>set (units ''low''). 0 \<le> c \<and> c < 256"
    "\<forall>c\<in>set (units ''med''). 0 \<le> c \<and> c < 256" "\<forall>c\<in>set (units ''high''). 0 \<le> c \<and> c < 256"
    by code_simp+
  from assms obtain c t where s: "s = c # t" by (cases s) (auto simp: quality_at_def)
  from assms consider "q = takeWhile isDigit t @ units ''p''" | "q = takeWhile isDigit t"
    | "q = units ''low''" | "q = units ''med''" | "q = units ''high''"
    unfolding s quality_at_def by (auto split: if_splits)
  then show ?thesis using d l by cases auto
qed

lemma detect_quality_latin:
  "detect_quality s = Some q \<Longrightarrow> \<forall>c\<in>set q. 0 \<le> c \<and> c < 256"
proof (induction s)
  case Nil
  then show ?case by simp
next
  case (Cons a s)
  then show ?case
    by (cases "quality_at (a # s)") (auto dest: quality_at_latin)
qed

lemma master_replacer_returns: "\<exists>y. master_replacer proxyOrigin sessionPath x = Inr y"
proof -
  have u: "\<forall>c\<in>set (units ''unknown''). 0 \<le> c \<and> c < 256" by code_simp
  have "\<forall>c\<in>set (case detect_quality x of Some q \<Rightarrow> q | None \<Rightarrow> units ''unknown'').
          0 \<le> c \<and> c < 256"
    using u detect_quality_latin[of x] by (cases "detect_quality x") auto
  from encode_js_returns[OF this] show ?thesis
    by (auto simp: master_replacer_def Let_def)
qed

lemma split_not_Nil: "split sep s \<noteq> []"
  by (induction s) (auto split: list.splits)

lemma set_last_split: "set (last (split sep s)) \<subseteq> set s"
proof (induction s)
  case Nil
  then show ?case by simp
next
  case (Cons a s)
  obtain p ps where ps: "split sep s = p # ps" using split_not_Nil[of sep s] by (cases "split sep s") auto
  show ?case
  proof (cases "a = sep")
    case True
    with Cons ps show ?thesis by auto
  next
    case False
    with Cons ps show ?thesis by (cases ps) auto
  qed
qed

lemma media_replacer_returns:
  assumes "\<forall>c\<in>set x. 0 \<le> c \<and> c < 256"
  shows "\<exists>y. media_replacer proxyOrigin sessionPath quality x = Inr y"
proof -
  have "\<forall>c\<in>set (last (split (of_char (CHR ''/'')) x)). 0 \<le> c \<and> c < 256"
    using assms set_last_split[of "of_char (CHR ''/'')" x] by blast
  from encode_js_returns[OF this] show ?thesis
    by (auto simp: media_replacer_def Let_def)
qed

lemma rewrite_line_returns:
  assumes "filename = ''master.m3u8'' \<or> l = [] \<or> hd l = of_char (CHR ''#'') \<or>
           (\<forall>c\<in>set l. 0 \<le> c \<and> c < 256)"
  shows "\<exists>x. rewrite_line (suffix_of filename)
               (replacer_of proxyOrigin sessionPath filename quality) l = Inr x"
proof (cases "reference_match (suffix_of filename) l")
  case None
  then show ?thesis by (simp add: rewrite_line_def)
next
  case (Some n)
  have nc: "\<not> (l = [] \<or> hd l = of_char (CHR ''#''))"
    using reference_match_unmatched[of l "suffix_of filename"] Some by auto
  have "\<exists>y. replacer_of proxyOrigin sessionPath filename quality (take n l) = Inr y"
  proof (cases "filename = ''master.m3u8''")
    case True
    then show ?thesis using master_replacer_returns by (simp add: replacer_of_def)
  next
    case False
    with assms nc have "\<forall>c\<in>set (take n l). 0 \<le> c \<and> c < 256" by (meson in_set_takeD)
    from media_replacer_returns[OF this] False show ?thesis by (simp add: replacer_of_def)
  qed
  with Some show ?thesis by (auto simp: rewrite_line_def)
qed

lemma rewritePlaylist_returns:
  assumes "filename = ''master.m3u8'' \<or>
           (\<forall>l\<in>set (lines_of playlist).
              l = [] \<or> hd l = of_char (CHR ''#'') \<or> (\<forall>c\<in>set l. 0 \<le> c \<and> c < 256))"
  shows "\<exists>out. rewritePlaylist proxyOrigin sessionPath filename quality playlist = Inr out"
  unfolding rewritePlaylist_alt
proof (rule replace_gm_returns[OF atLineStart_None], rule ballI)
  fix l assume "l \<in> set (lines_of playlist)"
  with assms have "filename = ''master.m3u8'' \<or> l = [] \<or> hd l = of_char (CHR ''#'') \<or>
           (\<forall>c\<in>set l. 0 \<le> c \<and> c < 256)" by blast
  then show "\<exists>x. rewrite_line (suffix_of filename)
               (replacer_of proxyOrigin sessionPath filename quality) l = Inr x"
    by (rule rewrite_line_returns)
qed


















text \<open>Lines in the sense of the HLS grammar: the pieces between line feeds.\<close>

lemma length_split: "length (split sep s) = Suc (length (filter (\<lambda>c. c = sep) s))"
  by (induction s) (auto split: list.splits simp: split_not_Nil)

lemma filter_newline:
  "filter (\<lambda>c. c = 0x0A) (filter isLineTerminator s) = filter (\<lambda>c. c = 0x0A) s"
  by (induction s) (auto simp: isLineTerminator_def)

lemma newline_count:
  assumes "filter isLineTerminator out = filter isLineTerminator s"
  shows "length (split 0x0A out) = length (split 0x0A s)"
proof -
  have "filter (\<lambda>c. c = 0x0A) out = filter (\<lambda>c. c = 0x0A) s"
    using filter_newline[of out] filter_newline[of s] assms by simp
  then show ?thesis by (simp add: length_split)
qed




section \<open>Properties of the handlers\<close>

lemma stream_not_other_routes:
  assumes "startsWith p ''/stream/''"
  shows "\<not> startsWith p ''/store-session''" "\<not> startsWith p ''/file2/''"
proof -
  from startsWith_take[OF assms, of 2] have t: "take 2 p = ''/s''" by simp
  from startsWith_take[OF assms, of 4] have t4: "take 4 p = ''/str''" by simp
  show "\<not> startsWith p ''/store-session''"
  proof
    assume "startsWith p ''/store-session''"
    from startsWith_take[OF this, of 4] t4 show False by simp
  qed
  show "\<not> startsWith p ''/file2/''"
  proof
    assume "startsWith p ''/file2/''"
    from startsWith_take[OF this, of 2] t show False by simp
  qed
qed

lemma json_response_status: "status (json_response st j) = st" "body (json_response st j) = Json j"
  by (simp_all add: json_response_def addCorsHeaders_def)

lemma text_response_status: "status (text_response st t) = st" "body (text_response st t) = Text (units t)"
  by (simp_all add: text_response_def addCorsHeaders_def)

lemma decode_error_kind: "decode t = Inl e \<Longrightarrow> e = InvalidCharacterError"
  by (auto simp: decode_def atob_def Let_def split: if_splits option.splits)

lemma lastIndexFrom_absent:
  "c \<notin> set ys \<Longrightarrow> lastIndexFrom c i found ys = found"
  by (induction ys arbitrary: i found) auto

lemma lastIndexFrom_append:
  "lastIndexFrom c i found (xs @ zs) =
   lastIndexFrom c (i + int (length xs)) (lastIndexFrom c i found xs) zs"
  by (induction xs arbitrary: i found) (auto simp: algebra_simps)

lemma lastIndexOf_last_slash:
  "c \<notin> set f \<Longrightarrow> lastIndexOf (d @ c # f) c = int (length d)"
  by (simp add: lastIndexOf_def lastIndexFrom_append lastIndexFrom_absent)

lemma dirname_by_substring:
  "CHR ''/'' \<notin> set f \<Longrightarrow> substring0 (d @ ''/'' @ f) (lastIndexOf (d @ ''/'' @ f) (CHR ''/'')) = d"
  using lastIndexOf_last_slash[of "CHR ''/''" f d] by (simp add: substring0_def)

text \<open>
  A segment name with a code unit above U+00FF: \<^verbatim>\<open>btoa\<close> throws inside the replacer, the
  \<^verbatim>\<open>catch\<close> of \<^verbatim>\<open>proxyM3U8Playlist\<close> answers 500.
\<close>

lemma non_latin_name_throws:
  "rewritePlaylist ''https://proxy.example'' ''S'' ''index.m3u8'' ''720p''
     (units ''#EXTM3U\<newline>'' @ [0x4E2D] @ units ''.ts'') = Inl InvalidCharacterError"
  by code_simp

lemma non_latin_name_is_500:
  "proxyM3U8Playlist (\<lambda>url. Upstream 200 ''OK'' (units ''#EXTM3U\<newline>'' @ [0x4E2D] @ units ''.ts''))
     (JStr ''https://origin.example/hls/master.m3u8'') ''index.m3u8'' ''720p'' ''S''
     ''https://proxy.example'' =
   (playlist_error ''index.m3u8'' ''720p'' InvalidCharacterError,
    [Fetch (JStr ''https://origin.example/hls/720p/index.m3u8'')])"
  by code_simp

section \<open>Claims\<close>

text \<open>
  C1. The claim: decoding the encoding of an ASCII string gives the string back, also when
  its length is divisible by three. The code does not do that: \<^verbatim>\<open>atob\<close> accepts padding
  only where it completes a group of four, so the fixed pad \<^verbatim>\<open>==\<close> is right only for
  strings whose length is one modulo three. For every other string, the spec's own
  \<^verbatim>\<open>seg001.ts\<close> and \<^verbatim>\<open>1080p\<close> among them, decoding the token the worker wrote throws.
\<close>

theorem roundtrip_fails_unless_one_mod_three:
  assumes "length s mod 3 \<noteq> 1"
  shows "decode (encode s) = Inl InvalidCharacterError"
proof -
  have nws: "filter (\<lambda>c. \<not> isAsciiWhitespace c) (encode s @ ''=='') = encode s @ ''==''"
    using encode_chars alphabet_not_ws by (auto simp: isAsciiWhitespace_def intro!: filter_True)
  have len: "length (encode s @ ''=='') mod 4 = (length (encode s) mod 4 + 2) mod 4"
    by (simp add: mod_simps)
  have bad: "those (map b64val (encode s @ ''=='')) = None"
    by (rule those_map_None[of "CHR ''=''"]) (simp_all add: b64val_pad)
  show ?thesis
  proof (cases "length s mod 3 = 0")
    case True
    then have "length (encode s @ ''=='') mod 4 = 2" using len encode_length[of s] by simp
    then show ?thesis unfolding decode_def using atob_bad_character[OF nws _ bad] by blast
  next
    case False
    with assms have "length (encode s @ ''=='') mod 4 = 1" using len encode_length[of s] by simp
    then show ?thesis unfolding decode_def using atob_length_one[OF nws] by blast
  qed
qed

theorem roundtrip_fails_witness:
  "length ''seg001.ts'' mod 3 \<noteq> 1 \<and> decode (encode ''seg001.ts'') = Inl InvalidCharacterError"
  using roundtrip_fails_unless_one_mod_three[of "''seg001.ts''"] by simp

text \<open>
  C2. The claim: the two relative variant lines of the master playlist are rewritten with
  the quality tokens of \<^verbatim>\<open>1080p\<close> and \<^verbatim>\<open>720p\<close>. The code looks for a quality between two
  slashes, the first path segment of a relative reference has none before it, and both
  lines get the token of \<^verbatim>\<open>unknown\<close>, which is neither of the two.
\<close>

theorem master_relative_variants_unknown:
  "rewritePlaylist proxyOrigin S ''master.m3u8'' q
     (units ''#EXTM3U\<newline>1080p/index.m3u8\<newline>720p/index.m3u8'') =
   Inr (units
     (''#EXTM3U\<newline>'' @ proxyOrigin @ ''/file2/'' @ S @ ''/'' @ encode ''unknown'' @ ''/'' @ encode ''index.m3u8'' @ ''.m3u8'' @
      ''\<newline>'' @ proxyOrigin @ ''/file2/'' @ S @ ''/'' @ encode ''unknown'' @ ''/'' @ encode ''index.m3u8'' @ ''.m3u8'')) \<and>
   encode ''unknown'' \<noteq> encode ''1080p'' \<and> encode ''unknown'' \<noteq> encode ''720p''"
proof -
  let ?r = "master_replacer proxyOrigin S"
  let ?m = "reference_match (units ''.m3u8'')"
  let ?u = "units (proxyOrigin @ ''/file2/'' @ S @ ''/dW5rbm93bg/aW5kZXgubTN1OA.m3u8'')"
  have d1: "encode ''unknown'' \<noteq> encode ''1080p''" by code_simp
  have d2: "encode ''unknown'' \<noteq> encode ''720p''" by code_simp
  have e1: "encode ''unknown'' = ''dW5rbm93bg''" by code_simp
  have e2: "encode ''index.m3u8'' = ''aW5kZXgubTN1OA''" by code_simp
  have body: "units ''#EXTM3U\<newline>1080p/index.m3u8\<newline>720p/index.m3u8'' =
     units ''#EXTM3U'' @ 0x0A # (units ''1080p/index.m3u8'' @ 0x0A # units ''720p/index.m3u8'')"
    by (simp add: units_def)
  have lt: "isLineTerminator 0x0A" by (simp add: isLineTerminator_def)
  have n1: "\<forall>c\<in>set (units ''#EXTM3U''). \<not> isLineTerminator c" by code_simp
  have n2: "\<forall>c\<in>set (units ''1080p/index.m3u8''). \<not> isLineTerminator c" by code_simp
  have n3: "\<forall>c\<in>set (units ''720p/index.m3u8''). \<not> isLineTerminator c" by code_simp
  have s0: "atLineStart None" by (simp add: atLineStart_def)
  have s1: "atLineStart (Some 0x0A)" by (simp add: atLineStart_def isLineTerminator_def)
  have m1: "?m (units ''#EXTM3U'') = None" by code_simp
  have m2: "?m (units ''1080p/index.m3u8'') = Some 16" by code_simp
  have m3: "?m (units ''720p/index.m3u8'') = Some 15" by code_simp
  have q2: "detect_quality (units ''1080p/index.m3u8'') = None" by code_simp
  have q3: "detect_quality (units ''720p/index.m3u8'') = None" by code_simp
  have k2: "length (units ''1080p/index.m3u8'') = 16" and k3: "length (units ''720p/index.m3u8'') = 15"
    by (simp_all add: units_def)
  have l1: "rewrite_line (units ''.m3u8'') ?r (units ''#EXTM3U'') = Inr (units ''#EXTM3U'')"
    by (simp add: rewrite_line_def m1)
  have l2: "rewrite_line (units ''.m3u8'') ?r (units ''1080p/index.m3u8'') = Inr ?u"
    using master_replacer_no_quality[OF q2, of proxyOrigin S] k2 by (simp add: rewrite_line_def m2)
  have l3: "rewrite_line (units ''.m3u8'') ?r (units ''720p/index.m3u8'') = Inr ?u"
    using master_replacer_no_quality[OF q3, of proxyOrigin S] k3 by (simp add: rewrite_line_def m3)
  have r3: "replace_gm ?m ?r (Some 0x0A) (units ''720p/index.m3u8'') = Inr ?u"
    unfolding replace_gm_last_line[OF s1 n3] by (rule l3)
  have r2: "replace_gm ?m ?r (Some 0x0A) (units ''1080p/index.m3u8'' @ 0x0A # units ''720p/index.m3u8'') =
            Inr (?u @ [0x0A] @ ?u)"
    unfolding replace_gm_line[OF s1 n2 lt] l2 r3 by simp
  have r1: "replace_gm ?m ?r None
              (units ''#EXTM3U'' @ 0x0A # (units ''1080p/index.m3u8'' @ 0x0A # units ''720p/index.m3u8'')) =
            Inr (units ''#EXTM3U'' @ [0x0A] @ ?u @ [0x0A] @ ?u)"
    unfolding replace_gm_line[OF s0 n1 lt] l1 r2 by simp
  have out: "units ''#EXTM3U'' @ [0x0A] @ ?u @ [0x0A] @ ?u =
     units (''#EXTM3U\<newline>'' @ proxyOrigin @ ''/file2/'' @ S @ ''/'' @ encode ''unknown'' @ ''/'' @ encode ''index.m3u8'' @ ''.m3u8'' @
      ''\<newline>'' @ proxyOrigin @ ''/file2/'' @ S @ ''/'' @ encode ''unknown'' @ ''/'' @ encode ''index.m3u8'' @ ''.m3u8'')"
    unfolding e1 e2 by (simp add: units_def)
  have "rewritePlaylist proxyOrigin S ''master.m3u8'' q
     (units ''#EXTM3U\<newline>1080p/index.m3u8\<newline>720p/index.m3u8'') =
   Inr (units
     (''#EXTM3U\<newline>'' @ proxyOrigin @ ''/file2/'' @ S @ ''/'' @ encode ''unknown'' @ ''/'' @ encode ''index.m3u8'' @ ''.m3u8'' @
      ''\<newline>'' @ proxyOrigin @ ''/file2/'' @ S @ ''/'' @ encode ''unknown'' @ ''/'' @ encode ''index.m3u8'' @ ''.m3u8''))"
    unfolding rewritePlaylist_def body out[symmetric] using r1 by simp
  with d1 d2 show ?thesis by (intro conjI)
qed







text \<open>
  C5. The claim: every line that starts with \<^verbatim>\<open>#\<close> and every blank line is unchanged, the
  line count and the order of lines are kept, and only reference lines are replaced, where
  the lines of a playlist are what its line feeds delimit. The expression's \<^verbatim>\<open>^\<close> also
  holds behind a carriage return, U+2028 and U+2029: in the one line
  \<^verbatim>\<open>#EXTINF:10,title\<close> CR \<^verbatim>\<open>seg001.ts\<close>, which starts with \<^verbatim>\<open>#\<close>, the text behind the carriage
  return is replaced. Amended, with lines taken as the runs between line feeds, carriage
  returns, U+2028 and U+2029: in every playlist the rewriter returns, the number of these
  lines, the sequence of line terminators and the number of lines that line feeds delimit
  are those of the input; every line that is empty, starts with \<^verbatim>\<open>#\<close> or consists of white
  space is unchanged; and every other line is either unchanged or has a prefix (within its
  leading run of non-space code units) replaced by the replacer's result for that prefix,
  the rest of the line staying in place. The rewriter returns a playlist when the requested
  file is \<^verbatim>\<open>master.m3u8\<close> or all lines other than comments hold code units up to U+00FF
  only. The proxy's origin and the session id come out of the URL parser and hold no line
  terminator.
\<close>

theorem rewrite_keeps_lines:
  assumes "\<forall>c\<in>set (units proxyOrigin). \<not> isLineTerminator c"
    and "\<forall>c\<in>set (units sessionPath). \<not> isLineTerminator c"
  shows "(\<forall>out. rewritePlaylist proxyOrigin sessionPath filename quality playlist = Inr out \<longrightarrow>
            length (lines_of out) = length (lines_of playlist) \<and>
            filter isLineTerminator out = filter isLineTerminator playlist \<and>
            length (split 0x0A out) = length (split 0x0A playlist) \<and>
            (\<forall>i<length (lines_of playlist).
               (lines_of playlist ! i = [] \<or> hd (lines_of playlist ! i) = of_char (CHR ''#'') \<or>
                (\<forall>c\<in>set (lines_of playlist ! i). isSpace c) \<longrightarrow>
                  lines_of out ! i = lines_of playlist ! i) \<and>
               (lines_of out ! i = lines_of playlist ! i \<or>
                (\<exists>n y. 0 < n \<and> n \<le> length (nonSpaceRun (lines_of playlist ! i)) \<and>
                       replacer_of proxyOrigin sessionPath filename quality
                         (take n (lines_of playlist ! i)) = Inr y \<and>
                       lines_of out ! i = y @ drop n (lines_of playlist ! i))))) \<and>
         (filename = ''master.m3u8'' \<or>
          (\<forall>l\<in>set (lines_of playlist).
             l = [] \<or> hd l = of_char (CHR ''#'') \<or> (\<forall>c\<in>set l. 0 \<le> c \<and> c < 256)) \<longrightarrow>
          (\<exists>out. rewritePlaylist proxyOrigin sessionPath filename quality playlist = Inr out))"
proof (intro conjI allI impI)
  let ?r = "replacer_of proxyOrigin sessionPath filename quality"
  let ?f = "rewrite_line (suffix_of filename) ?r"
  fix out
  assume R: "rewritePlaylist proxyOrigin sessionPath filename quality playlist = Inr out"
  note M = lines_of_rewritePlaylist(1)[OF assms R]
  note T = lines_of_rewritePlaylist(2)[OF assms R]
  show "length (lines_of out) = length (lines_of playlist)"
    using M by (metis length_map)
  show "filter isLineTerminator out = filter isLineTerminator playlist" by (rule T)
  show "length (split 0x0A out) = length (split 0x0A playlist)" by (rule newline_count[OF T])
  fix i assume i: "i < length (lines_of playlist)"
  have li: "?f (lines_of playlist ! i) = Inr (lines_of out ! i)"
    by (rule rewritten_line[OF M i])
  {
    assume "lines_of playlist ! i = [] \<or> hd (lines_of playlist ! i) = of_char (CHR ''#'') \<or>
            (\<forall>c\<in>set (lines_of playlist ! i). isSpace c)"
    from rewrite_line_unmatched[OF this, of "suffix_of filename" ?r] li
    show "lines_of out ! i = lines_of playlist ! i" by simp
  }
  from rewrite_line_cases[OF li]
  show "lines_of out ! i = lines_of playlist ! i \<or>
        (\<exists>n y. 0 < n \<and> n \<le> length (nonSpaceRun (lines_of playlist ! i)) \<and>
               ?r (take n (lines_of playlist ! i)) = Inr y \<and>
               lines_of out ! i = y @ drop n (lines_of playlist ! i))" .
next
  assume "filename = ''master.m3u8'' \<or>
          (\<forall>l\<in>set (lines_of playlist).
             l = [] \<or> hd l = of_char (CHR ''#'') \<or> (\<forall>c\<in>set l. 0 \<le> c \<and> c < 256))"
  then show "\<exists>out. rewritePlaylist proxyOrigin sessionPath filename quality playlist = Inr out"
    by (rule rewritePlaylist_returns)
qed

theorem rewrite_keeps_lines_witness:
  "rewritePlaylist ''https://proxy.example'' ''abc123'' ''index.m3u8'' ''720p''
     (units ''#EXTM3U\<newline>\<newline>#EXTINF:10,\<newline>seg001.ts'') =
   Inr (units ''#EXTM3U\<newline>\<newline>#EXTINF:10,\<newline>https://proxy.example/file2/abc123/NzIwcA/c2VnMDAxLnRz'') \<and>
   length (lines_of (units ''#EXTM3U\<newline>\<newline>#EXTINF:10,\<newline>https://proxy.example/file2/abc123/NzIwcA/c2VnMDAxLnRz'')) = 4 \<and>
   length (split 0x0A (units ''#EXTM3U\<newline>\<newline>#EXTINF:10,\<newline>https://proxy.example/file2/abc123/NzIwcA/c2VnMDAxLnRz'')) = 4 \<and>
   lines_of (units ''#EXTM3U\<newline>\<newline>#EXTINF:10,\<newline>https://proxy.example/file2/abc123/NzIwcA/c2VnMDAxLnRz'') ! 1 = [] \<and>
   lines_of (units ''#EXTM3U\<newline>\<newline>#EXTINF:10,\<newline>https://proxy.example/file2/abc123/NzIwcA/c2VnMDAxLnRz'') ! 2 =
     units ''#EXTINF:10,''"
proof -
  let ?b = "units ''#EXTM3U\<newline>\<newline>#EXTINF:10,\<newline>seg001.ts''"
  let ?o = "units ''#EXTM3U\<newline>\<newline>#EXTINF:10,\<newline>https://proxy.example/file2/abc123/NzIwcA/c2VnMDAxLnRz''"
  have o: "\<forall>c\<in>set (units ''https://proxy.example''). \<not> isLineTerminator c" by code_simp
  have p: "\<forall>c\<in>set (units ''abc123''). \<not> isLineTerminator c" by code_simp
  have l: "lines_of ?b = [units ''#EXTM3U'', [], units ''#EXTINF:10,'', units ''seg001.ts'']"
    by code_simp
  have s: "length (split 0x0A ?b) = 4" by code_simp
  have h1: "lines_of ?b ! 1 = [] \<or> hd (lines_of ?b ! 1) = of_char (CHR ''#'') \<or>
            (\<forall>c\<in>set (lines_of ?b ! 1). isSpace c)" unfolding l by simp
  have h2: "lines_of ?b ! 2 = [] \<or> hd (lines_of ?b ! 2) = of_char (CHR ''#'') \<or>
            (\<forall>c\<in>set (lines_of ?b ! 2). isSpace c)" unfolding l by (simp add: units_def)
  have lat: "''index.m3u8'' = ''master.m3u8'' \<or>
          (\<forall>l\<in>set (lines_of ?b).
             l = [] \<or> hd l = of_char (CHR ''#'') \<or> (\<forall>c\<in>set l. 0 \<le> c \<and> c < 256))"
    by code_simp
  note t = rewrite_keeps_lines[OF o p, of "''index.m3u8''" "''720p''" ?b]
  from t lat obtain out
    where out: "rewritePlaylist ''https://proxy.example'' ''abc123'' ''index.m3u8'' ''720p'' ?b = Inr out"
    by blast
  have r: "rewritePlaylist ''https://proxy.example'' ''abc123'' ''index.m3u8'' ''720p'' ?b = Inr ?o"
    by code_simp
  from t r have k: "length (lines_of ?o) = length (lines_of ?b)"
    and n: "length (split 0x0A ?o) = length (split 0x0A ?b)"
    and a: "\<forall>i<length (lines_of ?b).
              (lines_of ?b ! i = [] \<or> hd (lines_of ?b ! i) = of_char (CHR ''#'') \<or>
               (\<forall>c\<in>set (lines_of ?b ! i). isSpace c) \<longrightarrow>
                 lines_of ?o ! i = lines_of ?b ! i)"
    by blast+
  have i1: "1 < length (lines_of ?b)" and i2: "2 < length (lines_of ?b)" unfolding l by simp_all
  from k have c1: "length (lines_of ?o) = 4" unfolding l by simp
  from n s have c2: "length (split 0x0A ?o) = 4" by simp
  from a i1 h1 have "lines_of ?o ! 1 = lines_of ?b ! 1" by blast
  then have c3: "lines_of ?o ! 1 = []" unfolding l by simp
  from a i2 h2 have "lines_of ?o ! 2 = lines_of ?b ! 2" by blast
  then have c4: "lines_of ?o ! 2 = units ''#EXTINF:10,''" unfolding l by simp
  from r c1 c2 c3 c4 show ?thesis by (intro conjI)
qed

theorem carriage_return_line_counterexample:
  "split 0x0A (units ''#EXTINF:10,title'' @ [0x0D] @ units ''seg001.ts'') =
     [units ''#EXTINF:10,title'' @ [0x0D] @ units ''seg001.ts''] \<and>
   hd (units ''#EXTINF:10,title'' @ [0x0D] @ units ''seg001.ts'') = of_char (CHR ''#'') \<and>
   rewritePlaylist ''https://proxy.example'' ''abc123'' ''index.m3u8'' ''720p''
     (units ''#EXTINF:10,title'' @ [0x0D] @ units ''seg001.ts'') =
   Inr (units ''#EXTINF:10,title'' @ [0x0D] @
        units ''https://proxy.example/file2/abc123/NzIwcA/c2VnMDAxLnRz'') \<and>
   rewritePlaylist ''https://proxy.example'' ''abc123'' ''index.m3u8'' ''720p''
     (units ''#EXTINF:10,title'' @ [0x2028] @ units ''seg001.ts'') =
   Inr (units ''#EXTINF:10,title'' @ [0x2028] @
        units ''https://proxy.example/file2/abc123/NzIwcA/c2VnMDAxLnRz'')"
  by code_simp

text \<open>
  C6. The claim: a proxy request for a session that was never stored, or that is read after
  its expiry, is answered 404 with the session id truncated, never in full, without an
  upstream fetch, and the expired entry is deleted. The code decodes the two tokens before
  it looks the session up, so the 404 needs a path of five parts and tokens that decode;
  and the id is cut to its first 20 characters, so a shorter id is shown whole. Amended:
  with at least five path parts and two decodable tokens, a session that is absent, or
  stored with the 24-hour lifetime and read after it, gives 404 with the first 20
  characters of the id followed by three dots, no upstream fetch, and the entry deleted.
\<close>

theorem missing_or_expired_session_is_404:
  assumes "split (CHR ''/'') (pathname req) = parts"
    and "5 \<le> length parts"
    and "decode (parts ! 3) = Inr quality"
    and "decode (replaceFirst ''.m3u8'' [] (parts ! 4)) = Inr filename"
    and "store (JStr (parts ! 2)) = None \<or>
         (\<exists>s. store (JStr (parts ! 2)) = Some s \<and> expiresAt s = timestamp s + 86400000 \<and>
              expiresAt s < now)"
  shows "handleDatacrateProxy store now fetch req =
     (json_response 404
        (JObj [(''error'', JStr ''Session not found or expired''),
               (''sessionPath'', JStr (take 20 (parts ! 2) @ ''...'')),
               (''note'', JStr ''Session may have expired or was never stored'')]),
      store(JStr (parts ! 2) := None),
      if store (JStr (parts ! 2)) = None then [StoreGet (JStr (parts ! 2))]
      else [StoreGet (JStr (parts ! 2)), StoreDelete (JStr (parts ! 2))])"
  using assms
  by (auto simp: handleDatacrateProxy_def getSession_def session_not_found_def Let_def)

theorem expired_session_witness:
  "handleDatacrateProxy
     [JStr ''0123456789abcdefghijklmnop'' \<mapsto>
        \<lparr>originalUrl = JStr ''https://origin.example/hls/master.m3u8'', metadata = JObj [],
         timestamp = 1000, expiresAt = 86401000\<rparr>]
     86401001 no_upstream
     \<lparr>http_method = ''GET'', pathname = ''/file2/0123456789abcdefghijklmnop/NzIwcA/aW5kZXgubTN1OA.m3u8'',
      origin = ''https://proxy.example'', json_body = None\<rparr> =
   (json_response 404
      (JObj [(''error'', JStr ''Session not found or expired''),
             (''sessionPath'', JStr ''0123456789abcdefghij...''),
             (''note'', JStr ''Session may have expired or was never stored'')]),
    Map.empty,
    [StoreGet (JStr ''0123456789abcdefghijklmnop''), StoreDelete (JStr ''0123456789abcdefghijklmnop'')])"
proof -
  have p: "split (CHR ''/'') ''/file2/0123456789abcdefghijklmnop/NzIwcA/aW5kZXgubTN1OA.m3u8'' =
           [[], ''file2'', ''0123456789abcdefghijklmnop'', ''NzIwcA'', ''aW5kZXgubTN1OA.m3u8'']"
    by code_simp
  have q: "decode ''NzIwcA'' = Inr ''720p''" by code_simp
  have f: "decode (replaceFirst ''.m3u8'' [] ''aW5kZXgubTN1OA.m3u8'') = Inr ''index.m3u8''"
    by code_simp
  show ?thesis
    using missing_or_expired_session_is_404[of
        "\<lparr>http_method = ''GET'', pathname = ''/file2/0123456789abcdefghijklmnop/NzIwcA/aW5kZXgubTN1OA.m3u8'',
          origin = ''https://proxy.example'', json_body = None\<rparr>"
        "[[], ''file2'', ''0123456789abcdefghijklmnop'', ''NzIwcA'', ''aW5kZXgubTN1OA.m3u8'']"
        "''720p''" "''index.m3u8''"
        "[JStr ''0123456789abcdefghijklmnop'' \<mapsto>
           \<lparr>originalUrl = JStr ''https://origin.example/hls/master.m3u8'', metadata = JObj [],
            timestamp = 1000, expiresAt = 86401000\<rparr>]"
        86401001 no_upstream] p q f
    by simp
qed

theorem session_404_counterexample:
  "fst (handleDatacrateProxy Map.empty 7 no_upstream
     \<lparr>http_method = ''GET'', pathname = ''/file2/abc123/NzIwcA/aW5kZXgubTN1OA.m3u8'',
      origin = ''https://proxy.example'', json_body = None\<rparr>) =
   json_response 404
     (JObj [(''error'', JStr ''Session not found or expired''),
            (''sessionPath'', JStr (''abc123'' @ ''...'')),
            (''note'', JStr ''Session may have expired or was never stored'')]) \<and>
   status (fst (handleDatacrateProxy Map.empty 7 no_upstream
     \<lparr>http_method = ''GET'', pathname = ''/file2/abc123/NzIwcA/c2Vn*DAxLnRz'',
      origin = ''https://proxy.example'', json_body = None\<rparr>)) = 400"
  by code_simp

text \<open>
  C7. A proxy request (five path parts or more) whose quality token or filename token does
  not decode is answered 400 with the error \<^verbatim>\<open>Failed to decode URL\<close>, the message of the
  error and a timestamp; the store is neither read nor changed and nothing is fetched.
\<close>

theorem undecodable_token_is_400:
  assumes "split (CHR ''/'') (pathname req) = parts"
    and "5 \<le> length parts"
    and "isl (decode (parts ! 3)) \<or> isl (decode (replaceFirst ''.m3u8'' [] (parts ! 4)))"
  shows "handleDatacrateProxy store now fetch req =
     (json_response 400
        (JObj [(''error'', JStr ''Failed to decode URL''),
               (''details'', JMessage InvalidCharacterError),
               (''timestamp'', JIsoTime now)]),
      store, [])"
proof (cases "decode (parts ! 3)")
  case (Inl e)
  then have "e = InvalidCharacterError" by (rule decode_error_kind)
  with Inl assms(1,2) show ?thesis
    by (simp add: handleDatacrateProxy_def decode_error_def Let_def)
next
  case (Inr quality)
  with assms(3) obtain e where e: "decode (replaceFirst ''.m3u8'' [] (parts ! 4)) = Inl e"
    by (cases "decode (replaceFirst ''.m3u8'' [] (parts ! 4))") auto
  then have "e = InvalidCharacterError" by (rule decode_error_kind)
  with e Inr assms(1,2) show ?thesis
    by (simp add: handleDatacrateProxy_def decode_error_def Let_def)
qed

theorem undecodable_token_witness:
  "handleDatacrateProxy Map.empty 7 no_upstream
     \<lparr>http_method = ''GET'', pathname = ''/file2/abc123/NzIwcA/c2Vn*DAxLnRz'',
      origin = ''https://proxy.example'', json_body = None\<rparr> =
   (json_response 400
      (JObj [(''error'', JStr ''Failed to decode URL''),
             (''details'', JMessage InvalidCharacterError),
             (''timestamp'', JIsoTime 7)]),
    Map.empty, [])"
proof -
  have p: "split (CHR ''/'') ''/file2/abc123/NzIwcA/c2Vn*DAxLnRz'' =
           [[], ''file2'', ''abc123'', ''NzIwcA'', ''c2Vn*DAxLnRz'']" by code_simp
  have d: "isl (decode (replaceFirst ''.m3u8'' [] ''c2Vn*DAxLnRz''))" by code_simp
  show ?thesis
    using undecodable_token_is_400[of
        "\<lparr>http_method = ''GET'', pathname = ''/file2/abc123/NzIwcA/c2Vn*DAxLnRz'',
          origin = ''https://proxy.example'', json_body = None\<rparr>"
        "[[], ''file2'', ''abc123'', ''NzIwcA'', ''c2Vn*DAxLnRz'']" Map.empty 7 no_upstream] p d
    by simp
qed

text \<open>
  C8. The claim names the field \<^verbatim>\<open>originUrl\<close> and the error
  \<^verbatim>\<open>sessionId and originUrl are required\<close>. The code reads the field \<^verbatim>\<open>originalUrl\<close> and
  answers \<^verbatim>\<open>sessionId and originalUrl are required\<close>; a body with \<^verbatim>\<open>sessionId\<close> and
  \<^verbatim>\<open>originUrl\<close> is refused. Amended: for a POST whose body parses to a value other than
  \<^verbatim>\<open>null\<close>, a missing or falsy \<^verbatim>\<open>sessionId\<close> or \<^verbatim>\<open>originalUrl\<close> gives 400 with that error and
  stores nothing; when both are present and truthy the answer is 200 with
  \<^verbatim>\<open>{success: true, sessionId}\<close> and the session is stored with a lifetime of 24 hours.
\<close>

theorem store_session_responses:
  assumes "http_method req = ''POST''"
    and "json_body req = Some parsed"
    and "parsed \<noteq> JNull"
  shows "(\<not> truthy (field ''sessionId'' parsed) \<or> \<not> truthy (field ''originalUrl'' parsed) \<longrightarrow>
            handleStoreSession store now req =
              (json_response 400 (JObj [(''error'', JStr ''sessionId and originalUrl are required'')]),
               store, [])) \<and>
         (\<forall>sessionId url.
            field ''sessionId'' parsed = Some sessionId \<and> truthy (Some sessionId) \<and>
            field ''originalUrl'' parsed = Some url \<and> truthy (Some url) \<longrightarrow>
            handleStoreSession store now req =
              (json_response 200 (JObj [(''success'', JBool True), (''sessionId'', sessionId)]),
               store(sessionId \<mapsto>
                 \<lparr>originalUrl = url,
                  metadata = (case field ''metadata'' parsed of None \<Rightarrow> JObj [] | Some m \<Rightarrow> m),
                  timestamp = now, expiresAt = now + 86400000\<rparr>),
               [StoreSet sessionId]))"
  using assms
  by (cases parsed)
     (auto simp: handleStoreSession_def storeSession_def split: option.splits)

theorem store_session_witness:
  "handleStoreSession Map.empty 1000
     \<lparr>http_method = ''POST'', pathname = ''/store-session'', origin = ''https://proxy.example'',
      json_body = Some (JObj [(''sessionId'', JStr ''abc123''),
                              (''originalUrl'', JStr ''https://origin.example/hls/master.m3u8'')])\<rparr> =
   (json_response 200 (JObj [(''success'', JBool True), (''sessionId'', JStr ''abc123'')]),
    [JStr ''abc123'' \<mapsto>
       \<lparr>originalUrl = JStr ''https://origin.example/hls/master.m3u8'', metadata = JObj [],
        timestamp = 1000, expiresAt = 86401000\<rparr>],
    [StoreSet (JStr ''abc123'')]) \<and>
   handleStoreSession Map.empty 1000
     \<lparr>http_method = ''POST'', pathname = ''/store-session'', origin = ''https://proxy.example'',
      json_body = Some (JObj [(''sessionId'', JStr ''abc123'')])\<rparr> =
   (json_response 400 (JObj [(''error'', JStr ''sessionId and originalUrl are required'')]),
    Map.empty, [])"
  using store_session_responses[of
      "\<lparr>http_method = ''POST'', pathname = ''/store-session'', origin = ''https://proxy.example'',
        json_body = Some (JObj [(''sessionId'', JStr ''abc123''),
                                (''originalUrl'', JStr ''https://origin.example/hls/master.m3u8'')])\<rparr>"
      "JObj [(''sessionId'', JStr ''abc123''),
             (''originalUrl'', JStr ''https://origin.example/hls/master.m3u8'')]" Map.empty 1000]
    store_session_responses[of
      "\<lparr>http_method = ''POST'', pathname = ''/store-session'', origin = ''https://proxy.example'',
        json_body = Some (JObj [(''sessionId'', JStr ''abc123'')])\<rparr>"
      "JObj [(''sessionId'', JStr ''abc123'')]" Map.empty 1000]
  by simp

theorem store_session_origin_url_counterexample:
  "handleStoreSession Map.empty 1000
     \<lparr>http_method = ''POST'', pathname = ''/store-session'', origin = ''https://proxy.example'',
      json_body = Some (JObj [(''sessionId'', JStr ''abc123''),
                              (''originUrl'', JStr ''https://origin.example/hls/master.m3u8'')])\<rparr> =
   (json_response 400 (JObj [(''error'', JStr ''sessionId and originalUrl are required'')]),
    Map.empty, []) \<and>
   JStr ''sessionId and originalUrl are required'' \<noteq> JStr ''sessionId and originUrl are required''"
  by (simp add: handleStoreSession_def)

text \<open>
  C9. The claim: every request under the legacy prefix is answered 410, however many path
  segments it has. The code first counts the non-empty segments and answers 400 below
  five. Amended: a request, other than \<^verbatim>\<open>OPTIONS\<close>, whose path starts with \<^verbatim>\<open>/stream/\<close> is
  answered 410 with the structured body when the path has at least five non-empty
  segments, and 400 \<^verbatim>\<open>Invalid legacy URL format\<close> otherwise; the store is untouched.
\<close>

theorem legacy_gone_from_five_segments:
  assumes "http_method req \<noteq> ''OPTIONS''"
    and "startsWith (pathname req) ''/stream/''"
  shows "worker_fetch store now fetch req =
     (if 5 \<le> length (filter (\<lambda>p. p \<noteq> []) (split (CHR ''/'') (pathname req)))
      then json_response 410
             (JObj [(''error'', JStr ''Legacy format deprecated''),
                    (''message'',
                       JStr ''Please use the datacrate format: /file2/[session]/[quality]/[filename].m3u8''),
                    (''format'', JStr ''file2/[sessionPath]/[qualityBase64]/[filenameBase64].m3u8''),
                    (''example'', JStr ''/file2/abc123/cXVhbGl0eQ==/cGxheWxpc3QubTN1OA==.m3u8'')])
      else text_response 400 ''Invalid legacy URL format'',
      store, [])"
  using assms stream_not_other_routes[OF assms(2)]
  by (simp add: worker_fetch_def handleLegacyProxy_def Let_def)

theorem legacy_gone_witness:
  "status (fst (worker_fetch Map.empty 0 no_upstream
      \<lparr>http_method = ''GET'', pathname = ''/stream/vidsrc/720p/hls/abc123'',
       origin = ''https://proxy.example'', json_body = None\<rparr>)) = 410"
proof -
  have n: "5 \<le> length (filter (\<lambda>p. p \<noteq> []) (split (CHR ''/'') ''/stream/vidsrc/720p/hls/abc123''))"
    by code_simp
  have s: "startsWith ''/stream/vidsrc/720p/hls/abc123'' ''/stream/''" by code_simp
  show ?thesis
    using legacy_gone_from_five_segments[of "\<lparr>http_method = ''GET'', pathname = ''/stream/vidsrc/720p/hls/abc123'',
       origin = ''https://proxy.example'', json_body = None\<rparr>" Map.empty 0 no_upstream] n s
    by (simp add: json_response_status)
qed

theorem legacy_short_path_counterexample:
  "startsWith ''/stream/a/b'' ''/stream/'' \<and>
   status (fst (worker_fetch Map.empty 0 no_upstream
      \<lparr>http_method = ''GET'', pathname = ''/stream/a/b'',
       origin = ''https://proxy.example'', json_body = None\<rparr>)) = 400"
  by code_simp

text \<open>
  C10. For a stored URL \<open>d/f\<close> (\<open>f\<close> free of slashes), the playlist is fetched from
  \<open>d/quality/index.m3u8\<close>, the decoded quality as it is, exactly when the decoded filename
  is \<^verbatim>\<open>index.m3u8\<close> or \<^verbatim>\<open>playlist.m3u8\<close>; for every other filename, \<^verbatim>\<open>master.m3u8\<close>
  included, from the stored URL itself. That one fetch is the only one, whatever the
  upstream answers.
\<close>

theorem playlist_fetch_target:
  assumes "CHR ''/'' \<notin> set f"
  shows "snd (proxyM3U8Playlist fetch (JStr (d @ ''/'' @ f)) filename quality sessionPath proxyOrigin) =
     [Fetch (JStr (if filename = ''index.m3u8'' \<or> filename = ''playlist.m3u8''
                   then d @ ''/'' @ quality @ ''/index.m3u8''
                   else d @ ''/'' @ f))]"
proof -
  have t: "targetUrl (JStr (d @ ''/'' @ f)) filename quality =
     Inr (JStr (if filename = ''index.m3u8'' \<or> filename = ''playlist.m3u8''
                then d @ ''/'' @ quality @ ''/index.m3u8''
                else d @ ''/'' @ f))"
    using dirname_by_substring[OF assms, of d] by (simp add: targetUrl_def Let_def)
  show ?thesis
    unfolding proxyM3U8Playlist_def t
    by (simp split: upstream.splits sum.splits)
qed

theorem playlist_fetch_target_witness:
  "snd (proxyM3U8Playlist no_upstream (JStr ''https://origin.example/hls/master.m3u8'')
          ''index.m3u8'' ''720p'' ''abc123'' ''https://proxy.example'') =
     [Fetch (JStr ''https://origin.example/hls/720p/index.m3u8'')] \<and>
   snd (proxyM3U8Playlist no_upstream (JStr ''https://origin.example/hls/master.m3u8'')
          ''master.m3u8'' ''720p'' ''abc123'' ''https://proxy.example'') =
     [Fetch (JStr ''https://origin.example/hls/master.m3u8'')] \<and>
   snd (proxyM3U8Playlist no_upstream (JStr ''https://origin.example/hls/master.m3u8'')
          ''video.m3u8'' ''720p'' ''abc123'' ''https://proxy.example'') =
     [Fetch (JStr ''https://origin.example/hls/master.m3u8'')]"
  using playlist_fetch_target[of "''master.m3u8''" no_upstream "''https://origin.example/hls''"
          "''index.m3u8''" "''720p''" "''abc123''" "''https://proxy.example''"]
        playlist_fetch_target[of "''master.m3u8''" no_upstream "''https://origin.example/hls''"
          "''master.m3u8''" "''720p''" "''abc123''" "''https://proxy.example''"]
        playlist_fetch_target[of "''master.m3u8''" no_upstream "''https://origin.example/hls''"
          "''video.m3u8''" "''720p''" "''abc123''" "''https://proxy.example''"]
  by simp

end
